theory Spec2Isabelle
  imports Complex_Main "HOL-Library.Monad_Syntax"
begin

chapter \<open>The embedding\<close>

section \<open>Data model\<close>

text \<open>
  A thread colour of the DMC table is an object \<^verbatim>\<open>{ id, hex, name }\<close>. The code only ever
  reads \<^verbatim>\<open>hex\<close> through \<^verbatim>\<open>parseInt(hex.slice(1, 3), 16)\<close>, \<^verbatim>\<open>parseInt(hex.slice(3, 5), 16)\<close>
  and \<^verbatim>\<open>parseInt(hex.slice(5, 7), 16)\<close>; the field \<open>hex\<close> holds these three channel values
  (red, green, blue) of a well-formed \<^verbatim>\<open>#RRGGBB\<close> string. JavaScript numbers are modelled
  by exact integers and reals.
\<close>

type_synonym rgb = "int \<times> int \<times> int"

record dmc =
  ident :: string
  name :: string
  hex :: rgb

text \<open>
  The table \<^verbatim>\<open>DMC_COLORS\<close> is a constant array literal of the repository with several
  hundred entries; it is a parameter here, given by its entry \<^verbatim>\<open>DMC_COLORS[0]\<close> and the
  entries after it.
\<close>

type_synonym dmc_table = "dmc \<times> dmc list"

definition table_entries :: "dmc_table \<Rightarrow> dmc list" where
  "table_entries DMC_COLORS = fst DMC_COLORS # snd DMC_COLORS"

section \<open>colorUtils.js\<close>

text \<open>The expression \<^verbatim>\<open>dr * dr * 0.3 + dg * dg * 0.59 + db * db * 0.11\<close>.\<close>

definition weighted :: "int \<Rightarrow> int \<Rightarrow> int \<Rightarrow> real" where
  "weighted dr dg db =
     of_int (dr * dr) * (3 / 10) + of_int (dg * dg) * (59 / 100) + of_int (db * db) * (11 / 100)"

text \<open>
  The distance of a colour with channels \<open>(cr, cg, cb)\<close> to the colour \<open>(r, g, b)\<close>, as
  the loop bodies of \<^verbatim>\<open>findClosestDMC\<close> and \<^verbatim>\<open>limitColors\<close> compute it.
\<close>

definition rgb_distance :: "int \<Rightarrow> int \<Rightarrow> int \<Rightarrow> rgb \<Rightarrow> real" where
  "rgb_distance r g b c = (case c of (cr, cg, cb) \<Rightarrow> weighted (cr - r) (cg - g) (cb - b))"

text \<open>
  \<^verbatim>\<open>minDistance\<close> starts at \<^verbatim>\<open>Infinity\<close>, written \<open>None\<close>; \<^verbatim>\<open>distance < minDistance\<close>
  is then true for every (finite) distance.
\<close>

fun below :: "real \<Rightarrow> real option \<Rightarrow> bool" where
  "below d None = True"
| "below d (Some m) = (d < m)"

text \<open>
  One round of the scan \<^verbatim>\<open>if (distance < minDistance) { minDistance = distance;
  closestColor = c; }\<close>; \<open>hexof\<close> reads the channels of the scanned object.
\<close>

definition closest_step ::
  "('a \<Rightarrow> rgb) \<Rightarrow> int \<Rightarrow> int \<Rightarrow> int \<Rightarrow> 'a \<Rightarrow> real option \<times> 'a \<Rightarrow> real option \<times> 'a" where
  "closest_step hexof r g b c st =
     (case st of (minDistance, closestColor) \<Rightarrow>
        let distance = rgb_distance r g b (hexof c)
        in if below distance minDistance then (Some distance, c) else (minDistance, closestColor))"


definition findClosestDMC :: "dmc_table \<Rightarrow> int \<Rightarrow> int \<Rightarrow> int \<Rightarrow> dmc" where
  "findClosestDMC DMC_COLORS r g b =
     snd (fold (closest_step hex r g b) (table_entries DMC_COLORS) (None, fst DMC_COLORS))"

text \<open>\<^verbatim>\<open>colorDistance\<close> and \<^verbatim>\<open>isSimilarColor\<close> on colours \<^verbatim>\<open>{ r, g, b }\<close>.\<close>

definition colorDistance :: "rgb \<Rightarrow> rgb \<Rightarrow> real" where
  "colorDistance color1 color2 =
     (case color1 of (r1, g1, b1) \<Rightarrow> case color2 of (r2, g2, b2) \<Rightarrow>
        sqrt (weighted (r1 - r2) (g1 - g2) (b1 - b2)))"

definition isSimilarColor :: "rgb \<Rightarrow> rgb \<Rightarrow> real \<Rightarrow> bool" where
  "isSimilarColor color1 color2 tolerance = (colorDistance color1 color2 < tolerance)"

section \<open>JavaScript objects used as dictionaries\<close>

text \<open>
  \<^verbatim>\<open>colorCounts\<close> is a plain object keyed by colour id. \<^verbatim>\<open>Object.values\<close> and
  \<^verbatim>\<open>Object.keys\<close> enumerate the keys that are array indices (canonical decimal numerals
  below \<open>2^32 - 1\<close>, such as the DMC id \<^verbatim>\<open>"310"\<close>) first, in ascending numeric order, and
  then the other keys in the order of their creation. An object is modelled by the list
  of its properties in this order of enumeration. Ids are taken to be ordinary property
  names (not \<^verbatim>\<open>__proto__\<close>).
\<close>

type_synonym 'v obj = "(string \<times> 'v) list"

definition is_digit :: "char \<Rightarrow> bool" where
  "is_digit c = (48 \<le> (of_char c :: int) \<and> (of_char c :: int) \<le> 57)"

definition decimal_value :: "string \<Rightarrow> int" where
  "decimal_value k = fold (\<lambda>c n. 10 * n + (of_char c - 48)) k 0"

definition array_index :: "string \<Rightarrow> int option" where
  "array_index k =
     (case k of
        [] \<Rightarrow> None
      | c # cs \<Rightarrow>
          if list_all is_digit k \<and> (cs = [] \<or> c \<noteq> CHR ''0'') \<and> decimal_value k < 4294967295
          then Some (decimal_value k) else None)"

text \<open>Whether a new key \<open>k\<close> is enumerated before the existing key \<open>k'\<close>.\<close>

definition key_before :: "string \<Rightarrow> string \<Rightarrow> bool" where
  "key_before k k' =
     (case array_index k of
        None \<Rightarrow> False
      | Some n \<Rightarrow> (case array_index k' of None \<Rightarrow> True | Some m \<Rightarrow> n < m))"

fun obj_create :: "string \<Rightarrow> 'v \<Rightarrow> 'v obj \<Rightarrow> 'v obj" where
  "obj_create k v [] = [(k, v)]"
| "obj_create k v ((k', v') # rest) =
     (if key_before k k' then (k, v) # (k', v') # rest else (k', v') # obj_create k v rest)"

definition obj_keys :: "'v obj \<Rightarrow> string list" where
  "obj_keys ob = map fst ob"

definition obj_values :: "'v obj \<Rightarrow> 'v list" where
  "obj_values ob = map snd ob"

text \<open>\<^verbatim>\<open>ob[k]\<close>, with \<open>None\<close> for \<^verbatim>\<open>undefined\<close>.\<close>

definition obj_get :: "'v obj \<Rightarrow> string \<Rightarrow> 'v option" where
  "obj_get ob k = map_of ob k"

text \<open>\<^verbatim>\<open>ob[k] = v\<close>: an existing property keeps its place.\<close>

definition obj_set :: "string \<Rightarrow> 'v \<Rightarrow> 'v obj \<Rightarrow> 'v obj" where
  "obj_set k v ob =
     (if k \<in> set (obj_keys ob) then map (\<lambda>(k', v'). if k' = k then (k', v) else (k', v')) ob
      else obj_create k v ob)"

section \<open>Patterns\<close>

text \<open>
  A value of \<^verbatim>\<open>colorCounts\<close> is \<^verbatim>\<open>{ ...dmc, count }\<close>. A stitch is \<^verbatim>\<open>{ x, y, color }\<close>;
  \<^verbatim>\<open>limitColors\<close> and \<^verbatim>\<open>mergeColors\<close> store such a value as the \<^verbatim>\<open>color\<close> of a stitch, whose
  \<^verbatim>\<open>count\<close> property is never read again, so that the colour of a stitch is modelled
  by its \<^verbatim>\<open>id\<close>, \<^verbatim>\<open>name\<close> and \<^verbatim>\<open>hex\<close> alone.
\<close>

record usage =
  entry :: dmc
  count :: nat

record stitch =
  stitch_x :: nat
  stitch_y :: nat
  color :: dmc

text \<open>
  A non-negative integer, \<^verbatim>\<open>Infinity\<close> or \<^verbatim>\<open>NaN\<close>: the values that the grid height, the
  number of cells and the reported progress take.
\<close>

datatype jsnat = Fin nat | Infinity | NaN

record pattern =
  stitches :: "stitch list"
  width :: nat
  height :: jsnat
  colorCounts :: "usage obj"

text \<open>
  \<^verbatim>\<open>ob[k].count++\<close>, a \<^verbatim>\<open>TypeError\<close> (\<open>None\<close>) when \<^verbatim>\<open>ob[k]\<close> is \<^verbatim>\<open>undefined\<close>.
\<close>

fun count_up :: "string \<Rightarrow> usage obj \<Rightarrow> usage obj option" where
  "count_up k [] = None"
| "count_up k ((k', u) # rest) =
     (if k' = k then Some ((k', u\<lparr>count := count u + 1\<rparr>) # rest)
      else map_option ((#) (k', u)) (count_up k rest))"

text \<open>
  The invariant of a pattern: every stitch's colour id is a key of \<^verbatim>\<open>colorCounts\<close>, the
  count stored under each key is the number of stitches of that colour id, and the counts
  add up to the number of stitches.
\<close>

definition stitches_of :: "string \<Rightarrow> stitch list \<Rightarrow> nat" where
  "stitches_of k ss = length (filter (\<lambda>s. ident (color s) = k) ss)"

definition palette_coverage :: "pattern \<Rightarrow> bool" where
  "palette_coverage p \<longleftrightarrow>
     (\<forall>s \<in> set (stitches p). ident (color s) \<in> set (obj_keys (colorCounts p))) \<and>
     (\<forall>(k, u) \<in> set (colorCounts p). count u = stitches_of k (stitches p)) \<and>
     sum_list (map count (obj_values (colorCounts p))) = length (stitches p)"

section \<open>limitColors\<close>

text \<open>
  \<^verbatim>\<open>Object.values(pattern.colorCounts).sort((a, b) => b.count - a.count)\<close>: a stable sort
  (ECMAScript 2019), descending in \<^verbatim>\<open>count\<close>.
\<close>

definition sort_by_count :: "usage list \<Rightarrow> usage list" where
  "sort_by_count cs = sort_key (\<lambda>c. - int (count c)) cs"

text \<open>
  The scan for the closest of \<^verbatim>\<open>topColors\<close>; \<^verbatim>\<open>closestColor\<close> starts as \<^verbatim>\<open>topColors[0]\<close>,
  which is \<^verbatim>\<open>undefined\<close> (\<open>None\<close>) for an empty array.
\<close>

definition closest_of :: "usage list \<Rightarrow> rgb \<Rightarrow> usage option" where
  "closest_of topColors c =
     (case topColors of
        [] \<Rightarrow> None
      | c0 # _ \<Rightarrow>
          (case c of (r, g, b) \<Rightarrow>
             Some (snd (fold (closest_step (hex \<circ> entry) r g b) topColors (None, c0)))))"

text \<open>
  The callback of \<^verbatim>\<open>pattern.stitches.map\<close>, which also counts into \<^verbatim>\<open>newColorCounts\<close>;
  \<open>None\<close> is a \<^verbatim>\<open>TypeError\<close>.
\<close>

definition limit_stitch :: "usage list \<Rightarrow> stitch \<Rightarrow> usage obj \<Rightarrow> (stitch \<times> usage obj) option" where
  "limit_stitch topColors s newColorCounts =
     (if ident (color s) \<in> set (map (ident \<circ> entry) topColors) then
        do { counts \<leftarrow> count_up (ident (color s)) newColorCounts; Some (s, counts) }
      else
        do { closestColor \<leftarrow> closest_of topColors (hex (color s));
             counts \<leftarrow> count_up (ident (entry closestColor)) newColorCounts;
             Some (s\<lparr>color := entry closestColor\<rparr>, counts) })"

text \<open>
  \<^verbatim>\<open>stitches.map(callback)\<close> for a callback that also counts into \<^verbatim>\<open>newColorCounts\<close>.
\<close>

fun map_stitches ::
  "(stitch \<Rightarrow> usage obj \<Rightarrow> (stitch \<times> usage obj) option) \<Rightarrow> stitch list \<Rightarrow> usage obj \<Rightarrow>
   (stitch list \<times> usage obj) option" where
  "map_stitches f [] newColorCounts = Some ([], newColorCounts)"
| "map_stitches f (s # ss) newColorCounts =
     do { (s', counts) \<leftarrow> f s newColorCounts;
          (ss', counts') \<leftarrow> map_stitches f ss counts;
          Some (s' # ss', counts') }"

text \<open>
  \<^verbatim>\<open>cs.forEach(c => { newColorCounts[c.id] = { ...c, count: 0 }; })\<close> on the object \<open>ob\<close>.
\<close>

definition zeroed :: "usage list \<Rightarrow> usage obj \<Rightarrow> usage obj" where
  "zeroed cs ob = fold (\<lambda>c ob. obj_set (ident (entry c)) (c\<lparr>count := 0\<rparr>) ob) cs ob"

definition limitColors :: "pattern \<Rightarrow> int \<Rightarrow> pattern option" where
  "limitColors pattern maxColors =
     (if maxColors \<le> 0 then Some pattern
      else
        let sortedColors = sort_by_count (obj_values (colorCounts pattern))
        in if int (length sortedColors) \<le> maxColors then Some pattern
           else
             let topColors = take (nat maxColors) sortedColors;
                 newColorCounts = zeroed topColors []
             in do { (newStitches, counts) \<leftarrow> map_stitches (limit_stitch topColors) (stitches pattern) newColorCounts;
                     Some (pattern\<lparr>stitches := newStitches, colorCounts := counts\<rparr>) })"

section \<open>mergeColors\<close>

record group =
  representative :: rgb
  colors :: "usage list"
  totalCount :: nat

text \<open>
  The body of \<^verbatim>\<open>for (const color of colors)\<close>: the inner loop joins the first group whose
  \<^verbatim>\<open>representative\<close> is similar and breaks; when none is found, a new group is pushed.
\<close>

fun join_group :: "real \<Rightarrow> usage \<Rightarrow> group list \<Rightarrow> group list" where
  "join_group mergeTolerance c [] =
     [\<lparr>representative = hex (entry c), colors = [c], totalCount = count c\<rparr>]"
| "join_group mergeTolerance c (g # gs) =
     (if isSimilarColor (hex (entry c)) (representative g) mergeTolerance
      then g\<lparr>colors := colors g @ [c], totalCount := totalCount g + count c\<rparr> # gs
      else g # join_group mergeTolerance c gs)"

definition group_colors :: "real \<Rightarrow> usage list \<Rightarrow> group list" where
  "group_colors mergeTolerance cs = fold (join_group mergeTolerance) cs []"

text \<open>
  \<^verbatim>\<open>group.colors.reduce((prev, curr) => curr.count > prev.count ? curr : prev)\<close>, a
  \<^verbatim>\<open>TypeError\<close> (\<open>None\<close>) on an empty array.
\<close>

definition most_used :: "usage list \<Rightarrow> usage option" where
  "most_used cs =
     (case cs of
        [] \<Rightarrow> None
      | c # rest \<Rightarrow> Some (fold (\<lambda>curr prev. if count curr > count prev then curr else prev) rest c))"

text \<open>
  The loop \<^verbatim>\<open>for (const group of colorGroups)\<close>, which fills \<^verbatim>\<open>colorMapping\<close> and
  \<^verbatim>\<open>newColorCounts\<close>.
\<close>

fun map_groups :: "group list \<Rightarrow> usage obj \<times> usage obj \<Rightarrow> (usage obj \<times> usage obj) option" where
  "map_groups [] st = Some st"
| "map_groups (g # gs) st =
     (case st of (colorMapping, newColorCounts) \<Rightarrow>
        do { representative \<leftarrow> most_used (colors g);
             map_groups gs
               (fold (\<lambda>c m. obj_set (ident (entry c)) representative m) (colors g) colorMapping,
                obj_set (ident (entry representative)) (representative\<lparr>count := 0\<rparr>) newColorCounts) })"

text \<open>
  The callback of \<^verbatim>\<open>pattern.stitches.map\<close>: \<^verbatim>\<open>newColor.id\<close> is a \<^verbatim>\<open>TypeError\<close> when
  \<^verbatim>\<open>colorMapping\<close> has no property for the id of the stitch's colour.
\<close>

definition merge_stitch :: "usage obj \<Rightarrow> stitch \<Rightarrow> usage obj \<Rightarrow> (stitch \<times> usage obj) option" where
  "merge_stitch colorMapping s newColorCounts =
     do { newColor \<leftarrow> obj_get colorMapping (ident (color s));
          counts \<leftarrow> count_up (ident (entry newColor)) newColorCounts;
          Some (s\<lparr>color := entry newColor\<rparr>, counts) }"

definition mergeColors :: "pattern \<Rightarrow> real \<Rightarrow> pattern option" where
  "mergeColors pattern mergeTolerance =
     (if mergeTolerance \<le> 0 then Some pattern
      else
        let cs = obj_values (colorCounts pattern)
        in if length cs \<le> 1 then Some pattern
           else
             do { (colorMapping, newColorCounts) \<leftarrow> map_groups (group_colors mergeTolerance cs) ([], []);
                  (newStitches, counts) \<leftarrow> map_stitches (merge_stitch colorMapping) (stitches pattern) newColorCounts;
                  Some (pattern\<lparr>stitches := newStitches, colorCounts := counts\<rparr>) })"

section \<open>applyShapeMask\<close>

text \<open>
  The two statements \<^verbatim>\<open>if (!ob[id]) { ob[id] = { ...c, count: 0 }; }\<close> and
  \<^verbatim>\<open>ob[id].count++\<close> of \<^verbatim>\<open>applyShapeMask\<close>, and the statements
  \<^verbatim>\<open>ob[id] = ob[id] || { ...c, count: 0 }\<close> and \<^verbatim>\<open>ob[id].count++\<close> of \<^verbatim>\<open>convertToPattern\<close>,
  for the colour \<open>c\<close> with \<open>id = c.id\<close>.
\<close>

definition tally :: "dmc \<Rightarrow> usage obj \<Rightarrow> usage obj" where
  "tally c ob =
     (case obj_get ob (ident c) of
        None \<Rightarrow> obj_set (ident c) \<lparr>entry = c, count = 1\<rparr> ob
      | Some u \<Rightarrow> obj_set (ident c) (u\<lparr>count := count u + 1\<rparr>) ob)"

text \<open>
  \<^verbatim>\<open>(v - extent / 2) / (extent / 2)\<close> for a grid coordinate \<open>v\<close> and the \<^verbatim>\<open>width\<close> or
  \<^verbatim>\<open>height\<close> of the pattern. The value is \<^verbatim>\<open>Infinity\<close> or \<^verbatim>\<open>NaN\<close>, written \<open>None\<close>, when the
  extent is \<open>0\<close> (a division by zero), \<^verbatim>\<open>Infinity\<close> or \<^verbatim>\<open>NaN\<close>.
\<close>

definition normalised :: "nat \<Rightarrow> jsnat \<Rightarrow> real option" where
  "normalised v extent =
     (case extent of
        Fin n \<Rightarrow> if n = 0 then None else Some ((real v - real n / 2) / (real n / 2))
      | Infinity \<Rightarrow> None
      | NaN \<Rightarrow> None)"

text \<open>
  \<^verbatim>\<open>Math.atan2(dy, dx)\<close> on finite arguments; \<open>dy\<close> and \<open>dx\<close> are never \<open>-0\<close> here, and
  \<^verbatim>\<open>Math.atan2(0, 0)\<close> is \<open>0\<close>.
\<close>

definition atan2 :: "real \<Rightarrow> real \<Rightarrow> real" where
  "atan2 dy dx =
     (if 0 < dx then arctan (dy / dx)
      else if dx < 0 then (if 0 \<le> dy then arctan (dy / dx) + pi else arctan (dy / dx) - pi)
      else if 0 < dy then pi / 2
      else if dy < 0 then - (pi / 2)
      else 0)"

text \<open>
  \<^verbatim>\<open>Math.abs(Math.sin(t) * Math.cos(t) * Math.log(Math.abs(t)) / 2.5)\<close>. At \<open>t = 0\<close> the
  logarithm is \<^verbatim>\<open>-Infinity\<close> and \<^verbatim>\<open>Math.sin(t) * Math.cos(t)\<close> is \<open>0\<close>; their product
  \<^verbatim>\<open>0 * -Infinity\<close> is \<^verbatim>\<open>NaN\<close>, written \<open>None\<close>, and so are \<^verbatim>\<open>NaN / 2.5\<close> and
  \<^verbatim>\<open>Math.abs(NaN)\<close>.
\<close>

definition heartR :: "real \<Rightarrow> real option" where
  "heartR t = (if t = 0 then None else Some \<bar>sin t * cos t * ln \<bar>t\<bar> / (5 / 2)\<bar>)"

text \<open>\<^verbatim>\<open>r <= (0.8 + heartR)\<close>, which is false when \<^verbatim>\<open>heartR\<close> is \<^verbatim>\<open>NaN\<close>.\<close>

definition heart :: "real \<Rightarrow> real \<Rightarrow> bool" where
  "heart dx dy =
     (let t = atan2 dy dx; r = sqrt (dx * dx + dy * dy)
      in case heartR t of None \<Rightarrow> False | Some h \<Rightarrow> r \<le> 4 / 5 + h)"

text \<open>\<^verbatim>\<open>a % b\<close> on finite numbers with \<open>b \<noteq> 0\<close>: the remainder has the sign of \<open>a\<close>.\<close>

definition js_rem :: "real \<Rightarrow> real \<Rightarrow> real" where
  "js_rem a b = a - b * of_int (if 0 \<le> a / b then \<lfloor>a / b\<rfloor> else \<lceil>a / b\<rceil>)"

definition star :: "real \<Rightarrow> real \<Rightarrow> bool" where
  "star dx dy =
     (let angle = atan2 dy dx; radius = sqrt (dx * dx + dy * dy);
          pointAngle = js_rem (angle + pi) (2 * pi / 5);
          starRadius = 1 / 2 + 1 / 2 * cos (5 * pointAngle)
      in radius \<le> starRadius)"

text \<open>
  The callback of \<^verbatim>\<open>stitches.filter\<close>. For the five shapes of the \<^verbatim>\<open>switch\<close>, a coordinate
  that is \<^verbatim>\<open>Infinity\<close> or \<^verbatim>\<open>NaN\<close> makes the radius, or the sum of absolute values,
  \<^verbatim>\<open>Infinity\<close> or \<^verbatim>\<open>NaN\<close>, and the comparison false; the \<^verbatim>\<open>default\<close> case keeps every
  stitch.
\<close>

definition inside :: "string \<Rightarrow> nat \<Rightarrow> jsnat \<Rightarrow> stitch \<Rightarrow> bool" where
  "inside shape w h s =
     (if shape \<in> {''circle'', ''oval'', ''heart'', ''diamond'', ''star''} then
        (case (normalised (stitch_x s) (Fin w), normalised (stitch_y s) h) of
           (Some dx, Some dy) \<Rightarrow>
             if shape = ''circle'' then sqrt (dx * dx + dy * dy) \<le> 1
             else if shape = ''oval'' then sqrt (dx * dx + dy * dy) \<le> 1
             else if shape = ''heart'' then heart dx dy
             else if shape = ''diamond'' then \<bar>dx\<bar> + \<bar>dy\<bar> \<le> 1
             else star dx dy
         | _ \<Rightarrow> False)
      else True)"

text \<open>
  \<open>shape\<close> is \<open>None\<close> for \<^verbatim>\<open>undefined\<close> or \<^verbatim>\<open>null\<close>; \<^verbatim>\<open>!shape\<close> also holds for the empty
  string.
\<close>

definition applyShapeMask :: "pattern \<Rightarrow> string option \<Rightarrow> pattern" where
  "applyShapeMask pattern shape =
     (case shape of
        None \<Rightarrow> pattern
      | Some sh \<Rightarrow>
          if sh = ''rectangle'' \<or> sh = [] then pattern
          else
            let filteredStitches = filter (inside sh (width pattern) (height pattern)) (stitches pattern);
                newColorCounts = fold (\<lambda>s ob. tally (color s) ob) filteredStitches []
            in pattern\<lparr>stitches := filteredStitches, colorCounts := newColorCounts\<rparr>)"

section \<open>convertToPattern\<close>

text \<open>
  \<^verbatim>\<open>imageData\<close> is \<^verbatim>\<open>{ data, width, height }\<close> with \<^verbatim>\<open>data\<close> an array of bytes, four per
  pixel. A read beyond the end of \<^verbatim>\<open>data\<close> gives \<^verbatim>\<open>undefined\<close>, a write beyond the end of
  the \<^verbatim>\<open>Uint8ClampedArray\<close> \<^verbatim>\<open>workingData\<close> is ignored.
\<close>

record imageData =
  data :: "int list"
  img_width :: nat
  img_height :: nat

record options =
  removeBackground :: bool
  backgroundColor :: "rgb option"
  tolerance :: real
  useDithering :: bool
  ditheringAlgorithm :: string

text \<open>\<^verbatim>\<open>Math.round\<close> on a non-negative number: halves are rounded up.\<close>

definition js_round :: "real \<Rightarrow> nat" where
  "js_round v = nat \<lfloor>v + 1 / 2\<rfloor>"

text \<open>
  \<^verbatim>\<open>Math.round(gridSize * (height / width))\<close>. For \<open>width = 0\<close> the quotient is \<^verbatim>\<open>Infinity\<close>,
  or \<^verbatim>\<open>NaN\<close> when \<open>height = 0\<close> too; \<^verbatim>\<open>0 * Infinity\<close> is \<^verbatim>\<open>NaN\<close>.
\<close>

definition gridHeight_of :: "nat \<Rightarrow> nat \<Rightarrow> nat \<Rightarrow> jsnat" where
  "gridHeight_of gridSize w h =
     (if w = 0 then (if h = 0 \<or> gridSize = 0 then NaN else Infinity)
      else Fin (js_round (real gridSize * (real h / real w))))"

text \<open>
  \<^verbatim>\<open>cellHeight = height / gridHeight\<close> is read in the rows \<open>y < gridHeight\<close> only, that is
  when \<^verbatim>\<open>gridHeight\<close> is at least \<open>1\<close> or \<^verbatim>\<open>Infinity\<close> (then the quotient is \<open>0\<close>);
  \<^verbatim>\<open>cellWidth = width / gridWidth\<close> is read in the columns \<open>x < gridWidth\<close> only.
\<close>

definition cellHeight_of :: "nat \<Rightarrow> jsnat \<Rightarrow> real" where
  "cellHeight_of h gridHeight =
     (case gridHeight of Fin n \<Rightarrow> real h / real n | Infinity \<Rightarrow> 0 | NaN \<Rightarrow> 0)"

text \<open>\<^verbatim>\<open>total = gridWidth * gridHeight\<close>.\<close>

definition total_of :: "nat \<Rightarrow> jsnat \<Rightarrow> jsnat" where
  "total_of gridWidth gridHeight =
     (case gridHeight of
        Fin n \<Rightarrow> Fin (gridWidth * n)
      | Infinity \<Rightarrow> if gridWidth = 0 then NaN else Infinity
      | NaN \<Rightarrow> NaN)"

text \<open>\<^verbatim>\<open>Math.round((processed / total) * 100)\<close>.\<close>

definition percent :: "nat \<Rightarrow> jsnat \<Rightarrow> jsnat" where
  "percent n cells =
     (case cells of
        Fin t \<Rightarrow>
          if t = 0 then (if n = 0 then NaN else Infinity)
          else Fin (js_round (real n / real t * 100))
      | Infinity \<Rightarrow> Fin 0
      | NaN \<Rightarrow> NaN)"

text \<open>
  \<^verbatim>\<open>Math.min(startY + chunkSize, gridHeight)\<close> with \<^verbatim>\<open>chunkSize = 5\<close>; \<open>None\<close> is \<^verbatim>\<open>NaN\<close>.
\<close>

definition endY_of :: "nat \<Rightarrow> jsnat \<Rightarrow> nat option" where
  "endY_of startY gridHeight =
     (case gridHeight of
        Fin n \<Rightarrow> Some (min (startY + 5) n)
      | Infinity \<Rightarrow> Some (startY + 5)
      | NaN \<Rightarrow> None)"

text \<open>\<^verbatim>\<open>endY < gridHeight\<close> for a number \<open>endY\<close>.\<close>

definition before_end :: "nat \<Rightarrow> jsnat \<Rightarrow> bool" where
  "before_end endY gridHeight =
     (case gridHeight of Fin n \<Rightarrow> endY < n | Infinity \<Rightarrow> True | NaN \<Rightarrow> False)"

text \<open>
  Storing the number \<open>v\<close> into a \<^verbatim>\<open>Uint8ClampedArray\<close>: clamped to \<open>[0, 255]\<close> and rounded
  to the nearest integer, halves to the even one.
\<close>

definition round_half_even :: "real \<Rightarrow> int" where
  "round_half_even v =
     (let f = \<lfloor>v\<rfloor>
      in if v - of_int f < 1 / 2 then f
         else if 1 / 2 < v - of_int f then f + 1
         else if even f then f else f + 1)"

definition clamp8 :: "real \<Rightarrow> int" where
  "clamp8 v = round_half_even (max 0 (min 255 v))"

text \<open>
  \<^verbatim>\<open>dat[i] = Math.max(0, Math.min(255, dat[i] + e))\<close> on the \<^verbatim>\<open>Uint8ClampedArray\<close>.
\<close>

definition diffuse :: "nat \<Rightarrow> real \<Rightarrow> int list \<Rightarrow> int list" where
  "diffuse i e dat = (if i < length dat then dat[i := clamp8 (of_int (dat ! i) + e)] else dat)"

definition distributeError ::
  "int list \<Rightarrow> nat \<Rightarrow> nat \<Rightarrow> int \<Rightarrow> int \<Rightarrow> int \<Rightarrow> int \<Rightarrow> int \<Rightarrow> real \<Rightarrow> int list" where
  "distributeError dat w h x y errorR errorG errorB factor =
     (if x < 0 \<or> int w \<le> x \<or> y < 0 \<or> int h \<le> y then dat
      else
        let idx = nat ((y * int w + x) * 4)
        in diffuse (idx + 2) (of_int errorB * factor)
             (diffuse (idx + 1) (of_int errorG * factor)
                (diffuse idx (of_int errorR * factor) dat)))"

text \<open>
  The constants of one run (\<open>cells\<close> is \<^verbatim>\<open>total\<close>), and the variables that the chunks update.
\<close>

record grid =
  table :: dmc_table
  opts :: options
  image_width :: nat
  image_height :: nat
  gridWidth :: nat
  gridHeight :: jsnat
  cellWidth :: real
  cellHeight :: real
  cells :: jsnat

record sweep =
  st_workingData :: "int list"
  st_stitches :: "stitch list"
  st_colorCounts :: "usage obj"
  st_processed :: nat
  st_skipped :: nat
  st_progress :: "jsnat list"

text \<open>The calls of \<^verbatim>\<open>distributeError\<close> for the two algorithms.\<close>

definition dither :: "grid \<Rightarrow> int \<Rightarrow> int \<Rightarrow> int \<Rightarrow> int \<Rightarrow> int \<Rightarrow> int list \<Rightarrow> int list" where
  "dither c sampleX sampleY errorR errorG errorB dat =
     (let w = image_width c; h = image_height c
      in if ditheringAlgorithm (opts c) = ''floyd-steinberg'' then
           distributeError
             (distributeError
                (distributeError
                   (distributeError dat w h (sampleX + 1) sampleY errorR errorG errorB (7 / 16))
                   w h (sampleX - 1) (sampleY + 1) errorR errorG errorB (3 / 16))
                w h sampleX (sampleY + 1) errorR errorG errorB (5 / 16))
             w h (sampleX + 1) (sampleY + 1) errorR errorG errorB (1 / 16)
         else if ditheringAlgorithm (opts c) = ''atkinson'' then
           distributeError
             (distributeError
                (distributeError
                   (distributeError
                      (distributeError
                         (distributeError dat w h (sampleX + 1) sampleY errorR errorG errorB (1 / 8))
                         w h (sampleX + 2) sampleY errorR errorG errorB (1 / 8))
                      w h (sampleX - 1) (sampleY + 1) errorR errorG errorB (1 / 8))
                   w h sampleX (sampleY + 1) errorR errorG errorB (1 / 8))
                w h (sampleX + 1) (sampleY + 1) errorR errorG errorB (1 / 8))
             w h sampleX (sampleY + 2) errorR errorG errorB (1 / 8)
         else dat)"

text \<open>
  \<^verbatim>\<open>Math.floor(x * cellWidth + cellWidth / 2)\<close> and
  \<^verbatim>\<open>Math.floor(y * cellHeight + cellHeight / 2)\<close>.
\<close>

definition sampleX_of :: "grid \<Rightarrow> nat \<Rightarrow> nat" where
  "sampleX_of c x = nat \<lfloor>real x * cellWidth c + cellWidth c / 2\<rfloor>"

definition sampleY_of :: "grid \<Rightarrow> nat \<Rightarrow> nat" where
  "sampleY_of c y = nat \<lfloor>real y * cellHeight c + cellHeight c / 2\<rfloor>"

text \<open>
  \<^verbatim>\<open>removeBackground && backgroundColor\<close> and
  \<^verbatim>\<open>isSimilarColor({ r, g, b }, backgroundColor, tolerance)\<close>.
\<close>

definition is_background :: "grid \<Rightarrow> int \<Rightarrow> int \<Rightarrow> int \<Rightarrow> bool" where
  "is_background c r g b =
     (removeBackground (opts c) \<and>
      (case backgroundColor (opts c) of
         None \<Rightarrow> False
       | Some bg \<Rightarrow> isSimilarColor (r, g, b) bg (tolerance (opts c))))"

text \<open>
  The statements from \<^verbatim>\<open>const dmc = findClosestDMC(r, g, b)\<close> to the end of the dithering.
\<close>

definition stitch_cell :: "grid \<Rightarrow> nat \<Rightarrow> nat \<Rightarrow> nat \<Rightarrow> nat \<Rightarrow> int \<Rightarrow> int \<Rightarrow> int \<Rightarrow> sweep \<Rightarrow> sweep" where
  "stitch_cell c y x sampleX sampleY r g b st =
     (let dmc = findClosestDMC (table c) r g b;
          st1 = st\<lparr>st_stitches := st_stitches st @ [\<lparr>stitch_x = x, stitch_y = y, color = dmc\<rparr>],
                   st_colorCounts := tally dmc (st_colorCounts st)\<rparr>
      in if useDithering (opts c) then
           (case hex dmc of (dmcR, dmcG, dmcB) \<Rightarrow>
              st1\<lparr>st_workingData :=
                    dither c (int sampleX) (int sampleY) (r - dmcR) (g - dmcG) (b - dmcB)
                      (st_workingData st)\<rparr>)
         else st1)"

text \<open>
  The body of the loop over \<open>x\<close>. \<^verbatim>\<open>a > 128\<close> is false for \<^verbatim>\<open>a = undefined\<close>; a cell of
  the background counts as processed and skipped and the loop continues, every other cell
  counts as processed at the end of the body.
\<close>

definition sample_cell :: "grid \<Rightarrow> nat \<Rightarrow> nat \<Rightarrow> sweep \<Rightarrow> sweep" where
  "sample_cell c y x st =
     (let sampleX = sampleX_of c x;
          sampleY = sampleY_of c y;
          idx = (sampleY * image_width c + sampleX) * 4;
          wd = st_workingData st
      in if idx + 3 < length wd \<and> 128 < wd ! (idx + 3) then
           let r = wd ! idx; g = wd ! (idx + 1); b = wd ! (idx + 2)
           in if is_background c r g b
              then st\<lparr>st_processed := st_processed st + 1, st_skipped := st_skipped st + 1\<rparr>
              else
                let st2 = stitch_cell c y x sampleX sampleY r g b st
                in st2\<lparr>st_processed := st_processed st2 + 1\<rparr>
         else st\<lparr>st_processed := st_processed st + 1\<rparr>)"

definition sample_row :: "grid \<Rightarrow> nat \<Rightarrow> sweep \<Rightarrow> sweep" where
  "sample_row c y st = fold (sample_cell c y) [0..<gridWidth c] st"

text \<open>The pattern that the promise resolves with, and the values passed to \<^verbatim>\<open>onProgress\<close>.\<close>

definition resolved :: "grid \<Rightarrow> sweep \<Rightarrow> pattern \<times> jsnat list" where
  "resolved c st =
     (\<lparr>stitches = st_stitches st, width = gridWidth c, height = gridHeight c,
        colorCounts = st_colorCounts st\<rparr>,
      st_progress st)"

text \<open>
  \<^verbatim>\<open>processChunk(startY)\<close>. Each chunk runs in an animation frame of its own; the first
  argument bounds the number of frames, and \<open>None\<close> says that the promise has not been
  resolved within them.
\<close>

fun processChunk :: "nat \<Rightarrow> grid \<Rightarrow> nat \<Rightarrow> sweep \<Rightarrow> (pattern \<times> jsnat list) option" where
  "processChunk 0 c startY st = None"
| "processChunk (Suc frames) c startY st =
     (case endY_of startY (gridHeight c) of
        None \<Rightarrow>
          Some (resolved c (st\<lparr>st_progress := st_progress st @ [percent (st_processed st) (cells c)]\<rparr>))
      | Some endY \<Rightarrow>
          let st1 = fold (sample_row c) [startY..<endY] st;
              st2 = st1\<lparr>st_progress := st_progress st1 @ [percent (st_processed st1) (cells c)]\<rparr>
          in if before_end endY (gridHeight c) then processChunk frames c endY st2
             else Some (resolved c st2))"

text \<open>
  The constants that \<^verbatim>\<open>convertToPattern\<close> computes before the first chunk, and the
  variables at their initial values; \<^verbatim>\<open>workingData\<close> is \<^verbatim>\<open>data\<close> or a copy of it.
\<close>

definition run_grid :: "dmc_table \<Rightarrow> imageData \<Rightarrow> nat \<Rightarrow> options \<Rightarrow> grid" where
  "run_grid DMC_COLORS img gridSize options =
     \<lparr>table = DMC_COLORS, opts = options, image_width = img_width img, image_height = img_height img,
      gridWidth = gridSize, gridHeight = gridHeight_of gridSize (img_width img) (img_height img),
      cellWidth = real (img_width img) / real gridSize,
      cellHeight = cellHeight_of (img_height img) (gridHeight_of gridSize (img_width img) (img_height img)),
      cells = total_of gridSize (gridHeight_of gridSize (img_width img) (img_height img))\<rparr>"

definition run_start :: "imageData \<Rightarrow> sweep" where
  "run_start img =
     \<lparr>st_workingData = data img, st_stitches = [], st_colorCounts = [],
      st_processed = 0, st_skipped = 0, st_progress = []\<rparr>"

definition convertToPattern ::
  "nat \<Rightarrow> dmc_table \<Rightarrow> imageData \<Rightarrow> nat \<Rightarrow> options \<Rightarrow> (pattern \<times> jsnat list) option" where
  "convertToPattern frames DMC_COLORS img gridSize options =
     processChunk frames (run_grid DMC_COLORS img gridSize options) 0 (run_start img)"

section \<open>Notions used in the statements and proofs\<close>

text \<open>The count stored under a key, \<open>0\<close> for a key that is absent.\<close>

definition count_at :: "usage obj \<Rightarrow> string \<Rightarrow> nat" where
  "count_at ob k = (case map_of ob k of None \<Rightarrow> 0 | Some u \<Rightarrow> count u)"

text \<open>Two stitches that differ at most in their \<^verbatim>\<open>color\<close>.\<close>

definition same_but_color :: "stitch \<Rightarrow> stitch \<Rightarrow> bool" where
  "same_but_color s s' \<longleftrightarrow> s' = s\<lparr>color := color s'\<rparr>"

text \<open>
  What \<^verbatim>\<open>limitColors\<close> and \<^verbatim>\<open>mergeColors\<close> leave alone: the number of stitches, the
  coordinates at each position, \<^verbatim>\<open>width\<close>, \<^verbatim>\<open>height\<close> and every other field of the pattern;
  a stitch changes in its \<^verbatim>\<open>color\<close> at most.
\<close>

definition unchanged_but_colors :: "pattern \<Rightarrow> pattern \<Rightarrow> bool" where
  "unchanged_but_colors p p' \<longleftrightarrow>
     length (stitches p') = length (stitches p) \<and>
     map stitch_x (stitches p') = map stitch_x (stitches p) \<and>
     map stitch_y (stitches p') = map stitch_y (stitches p) \<and>
     list_all2 same_but_color (stitches p) (stitches p') \<and>
     width p' = width p \<and> height p' = height p \<and>
     p' = p\<lparr>stitches := stitches p', colorCounts := colorCounts p'\<rparr>"

text \<open>The colour ids of a group; two groups that share no colour id.\<close>

definition group_ids :: "group \<Rightarrow> string set" where
  "group_ids g = set (map (ident \<circ> entry) (colors g))"

definition apart :: "group \<Rightarrow> group \<Rightarrow> bool" where
  "apart g g' \<longleftrightarrow> group_ids g \<inter> group_ids g' = {}"

text \<open>
  A group holds its seed first, its \<^verbatim>\<open>representative\<close> is the seed's colour, and every other
  member is similar to the seed.
\<close>

definition anchored :: "real \<Rightarrow> group \<Rightarrow> bool" where
  "anchored tol g \<longleftrightarrow>
     (\<exists>seed rest. colors g = seed # rest \<and> representative g = hex (entry seed) \<and>
        list_all (\<lambda>c. isSimilarColor (hex (entry c)) (hex (entry seed)) tol) rest)"

text \<open>
  The counts \<open>ob\<close> tally the stitches \<open>ss\<close>: distinct keys, a key for every stitch's colour
  id, and under each key the number of stitches of that colour id.
\<close>

definition tallied :: "stitch list \<Rightarrow> usage obj \<Rightarrow> bool" where
  "tallied ss ob \<longleftrightarrow>
     distinct (obj_keys ob) \<and> (\<forall>s \<in> set ss. ident (color s) \<in> set (obj_keys ob)) \<and>
     (\<forall>k. count_at ob k = stitches_of k ss)"


text \<open>
  Two copies of the working data that agree in length and in every alpha byte (the bytes
  at the indices \<open>4 * i + 3\<close>).
\<close>

definition same_alpha :: "int list \<Rightarrow> int list \<Rightarrow> bool" where
  "same_alpha d d' \<longleftrightarrow> length d' = length d \<and> (\<forall>i. i mod 4 = 3 \<longrightarrow> d' ! i = d ! i)"

text \<open>The test \<^verbatim>\<open>a > 128\<close> of the cell \<open>(x, y)\<close> on the working data \<open>wd\<close>.\<close>

definition opaque :: "grid \<Rightarrow> int list \<Rightarrow> nat \<Rightarrow> nat \<Rightarrow> bool" where
  "opaque c wd y x =
     (let idx = (sampleY_of c y * image_width c + sampleX_of c x) * 4
      in idx + 3 < length wd \<and> 128 < wd ! (idx + 3))"

text \<open>
  The state of a run and the state of a second run that has kept the alpha bytes the same
  and has at least as many stitches.
\<close>

definition behind :: "sweep \<Rightarrow> sweep \<Rightarrow> bool" where
  "behind st1 st2 \<longleftrightarrow>
     same_alpha (st_workingData st1) (st_workingData st2) \<and>
     length (st_stitches st1) \<le> length (st_stitches st2)"

section \<open>Example data\<close>

definition black :: dmc where
  "black = \<lparr>ident = ''310'', name = ''Black'', hex = (0, 0, 0)\<rparr>"

definition black_brown :: dmc where
  "black_brown = \<lparr>ident = ''3371'', name = ''Black Brown'', hex = (30, 17, 8)\<rparr>"

definition snow_white :: dmc where
  "snow_white = \<lparr>ident = ''B5200'', name = ''Snow White'', hex = (255, 255, 255)\<rparr>"

definition cross :: "nat \<Rightarrow> nat \<Rightarrow> dmc \<Rightarrow> stitch" where
  "cross i j c = \<lparr>stitch_x = i, stitch_y = j, color = c\<rparr>"

text \<open>A 2 by 2 pattern: one stitch in black, two in black brown, one in snow white.\<close>

definition three_colors :: pattern where
  "three_colors =
     \<lparr>stitches = [cross 0 0 black, cross 1 0 black_brown, cross 0 1 black_brown, cross 1 1 snow_white],
      width = 2, height = Fin 2,
      colorCounts = [(''310'', \<lparr>entry = black, count = 1\<rparr>),
                     (''3371'', \<lparr>entry = black_brown, count = 2\<rparr>),
                     (''B5200'', \<lparr>entry = snow_white, count = 1\<rparr>)]\<rparr>"

text \<open>\<^verbatim>\<open>limitColors(three_colors, 2)\<close> and \<^verbatim>\<open>mergeColors(three_colors, 30)\<close>.\<close>

definition limited_example :: pattern where
  "limited_example =
     \<lparr>stitches = [cross 0 0 black, cross 1 0 black_brown, cross 0 1 black_brown, cross 1 1 black_brown],
      width = 2, height = Fin 2,
      colorCounts = [(''310'', \<lparr>entry = black, count = 1\<rparr>),
                     (''3371'', \<lparr>entry = black_brown, count = 3\<rparr>)]\<rparr>"

definition merged_example :: pattern where
  "merged_example =
     \<lparr>stitches = [cross 0 0 black_brown, cross 1 0 black_brown, cross 0 1 black_brown, cross 1 1 snow_white],
      width = 2, height = Fin 2,
      colorCounts = [(''3371'', \<lparr>entry = black_brown, count = 3\<rparr>),
                     (''B5200'', \<lparr>entry = snow_white, count = 1\<rparr>)]\<rparr>"

text \<open>
  A table of two colours, the default options, and a 2 by 2 image of opaque red with the
  pattern it converts to at grid width 2.
\<close>

definition red :: dmc where
  "red = \<lparr>ident = ''A'', name = ''Red'', hex = (255, 0, 0)\<rparr>"

definition blue :: dmc where
  "blue = \<lparr>ident = ''B'', name = ''Blue'', hex = (0, 0, 255)\<rparr>"

definition two_table :: dmc_table where
  "two_table = (red, [blue])"

definition plain :: options where
  "plain = \<lparr>removeBackground = False, backgroundColor = None, tolerance = 30, useDithering = False,
     ditheringAlgorithm = ''floyd-steinberg''\<rparr>"

definition red_square :: imageData where
  "red_square = \<lparr>data = [255, 0, 0, 255, 255, 0, 0, 255, 255, 0, 0, 255, 255, 0, 0, 255],
     img_width = 2, img_height = 2\<rparr>"

definition red_pattern :: pattern where
  "red_pattern =
     \<lparr>stitches = [cross 0 0 red, cross 1 0 red, cross 0 1 red, cross 1 1 red],
      width = 2, height = Fin 2,
      colorCounts = [(''A'', \<lparr>entry = red, count = 4\<rparr>)]\<rparr>"


definition no_rows :: imageData where
  "no_rows = \<lparr>data = [], img_width = 1, img_height = 0\<rparr>"

definition no_columns :: imageData where
  "no_columns = \<lparr>data = [], img_width = 0, img_height = 1\<rparr>"

text \<open>
  An image of one column and six rows: three red pixels, two blue ones and a transparent one.
\<close>

definition column :: imageData where
  "column = \<lparr>data = [255, 0, 0, 255, 255, 0, 0, 255, 255, 0, 0, 255,
                      0, 0, 255, 255, 0, 0, 255, 255, 0, 0, 255, 0],
     img_width = 1, img_height = 6\<rparr>"

text \<open>Options that dither and remove a red background.\<close>

definition removing_red :: options where
  "removing_red = \<lparr>removeBackground = True, backgroundColor = Some (250, 5, 5), tolerance = 10,
     useDithering = True, ditheringAlgorithm = ''floyd-steinberg''\<rparr>"


chapter \<open>Properties\<close>

section \<open>Nearest thread colour\<close>




section \<open>Objects and counts\<close>

lemma obj_create_keys: "set (obj_keys (obj_create k v ob)) = insert k (set (obj_keys ob))"
  unfolding obj_keys_def by (induction ob) (simp, force)

lemma obj_create_length: "length (obj_create k v ob) = Suc (length ob)"
  by (induction ob) auto

lemma obj_create_distinct:
  "k \<notin> set (obj_keys ob) \<Longrightarrow> distinct (obj_keys ob) \<Longrightarrow> distinct (obj_keys (obj_create k v ob))"
proof (induction ob)
  case Nil
  then show ?case by (simp add: obj_keys_def)
next
  case (Cons a ob)
  obtain k' v' where a: "a = (k', v')" by (cases a)
  from Cons.prems have "k \<notin> set (obj_keys ob)" "distinct (obj_keys ob)"
    by (auto simp: obj_keys_def)
  then have "distinct (obj_keys (obj_create k v ob))" by (rule Cons.IH)
  moreover have "k' \<notin> set (obj_keys (obj_create k v ob))"
    using Cons.prems a by (simp only: obj_create_keys) (auto simp: obj_keys_def)
  ultimately show ?case using Cons.prems a by (auto simp: obj_keys_def)
qed

lemma obj_create_map_of:
  "k \<notin> set (obj_keys ob) \<Longrightarrow> map_of (obj_create k v ob) k' = (if k' = k then Some v else map_of ob k')"
  by (induction ob) (auto simp: obj_keys_def)

lemma replace_keys:
  "obj_keys (map (\<lambda>(k', v'). if k' = k then (k', v) else (k', v')) ob) = obj_keys ob"
  unfolding obj_keys_def by (induction ob) auto

lemma replace_map_of:
  "map_of (map (\<lambda>(k', v'). if k' = k then (k', v) else (k', v')) ob) k'' =
     (if k'' = k \<and> k \<in> set (obj_keys ob) then Some v else map_of ob k'')"
  unfolding obj_keys_def by (induction ob) (simp, force)

lemma obj_set_keys: "set (obj_keys (obj_set k v ob)) = insert k (set (obj_keys ob))"
  by (auto simp: obj_set_def replace_keys obj_create_keys)

lemma obj_set_distinct: "distinct (obj_keys ob) \<Longrightarrow> distinct (obj_keys (obj_set k v ob))"
  by (simp add: obj_set_def replace_keys obj_create_distinct)

lemma obj_set_length: "length (obj_set k v ob) \<le> Suc (length ob)"
  by (simp add: obj_set_def obj_create_length)

lemma obj_set_map_of: "map_of (obj_set k v ob) k' = (if k' = k then Some v else map_of ob k')"
  by (simp add: obj_set_def replace_map_of obj_create_map_of)

lemma count_up_present: "k \<in> set (obj_keys ob) \<Longrightarrow> \<exists>ob'. count_up k ob = Some ob'"
  unfolding obj_keys_def by (induction ob) (simp, force)

lemma count_up_keys: "count_up k ob = Some ob' \<Longrightarrow> obj_keys ob' = obj_keys ob"
  unfolding obj_keys_def by (induction ob arbitrary: ob') (auto split: if_splits)

lemma count_up_count_at:
  "count_up k ob = Some ob' \<Longrightarrow> count_at ob' k' = count_at ob k' + (if k' = k then 1 else 0)"
  by (induction ob arbitrary: ob') (auto simp: count_at_def split: if_splits)

lemma count_up_key_present: "count_up k ob = Some ob' \<Longrightarrow> k \<in> set (obj_keys ob)"
  unfolding obj_keys_def by (induction ob arbitrary: ob') (auto split: if_splits)


lemma fold_closest_step_mem:
  "snd (fold (closest_step f r g b) xs st) \<in> insert (snd st) (set xs)"
proof (induction xs arbitrary: st)
  case Nil
  then show ?case by simp
next
  case (Cons x xs)
  have "snd (closest_step f r g b x st) \<in> {snd st, x}"
    by (cases st) (simp add: closest_step_def Let_def)
  with Cons.IH [of "closest_step f r g b x st"] show ?case by auto
qed

lemma closest_of_mem: "closest_of topColors c = Some u \<Longrightarrow> u \<in> set topColors"
proof (cases topColors)
  case Nil
  assume "closest_of topColors c = Some u"
  with Nil show ?thesis by (simp add: closest_of_def)
next
  case (Cons c0 cs)
  assume h: "closest_of topColors c = Some u"
  obtain r g b where c: "c = (r, g, b)" by (cases c)
  from h Cons c have "u = snd (fold (closest_step (hex \<circ> entry) r g b) topColors (None, c0))"
    by (simp add: closest_of_def)
  with fold_closest_step_mem [of "hex \<circ> entry" r g b topColors "(None, c0)"] Cons
  show ?thesis by auto
qed

lemma closest_of_defined: "topColors \<noteq> [] \<Longrightarrow> \<exists>u. closest_of topColors c = Some u"
  by (cases topColors; cases c) (auto simp: closest_of_def)

lemma limit_stitch_Some:
  assumes "limit_stitch topColors s ob = Some (s', ob')"
  shows "obj_keys ob' = obj_keys ob"
    and "same_but_color s s'"
    and "ident (color s') \<in> set (obj_keys ob)"
    and "count_at ob' k = count_at ob k + (if k = ident (color s') then 1 else 0)"
proof -
  show "obj_keys ob' = obj_keys ob"
    using assms by (auto simp: limit_stitch_def count_up_keys split: if_splits bind_splits)
  show "same_but_color s s'"
    using assms by (auto simp: limit_stitch_def same_but_color_def split: if_splits bind_splits)
  show "ident (color s') \<in> set (obj_keys ob)"
    using assms by (auto simp: limit_stitch_def dest: count_up_key_present split: if_splits bind_splits)
  show "count_at ob' k = count_at ob k + (if k = ident (color s') then 1 else 0)"
    using assms by (auto simp: limit_stitch_def count_up_count_at split: if_splits bind_splits)
qed

lemma limit_stitch_defined:
  assumes "set (obj_keys ob) = set (map (ident \<circ> entry) topColors)" and "topColors \<noteq> []"
  shows "\<exists>r. limit_stitch topColors s ob = Some r"
proof (cases "ident (color s) \<in> set (map (ident \<circ> entry) topColors)")
  case True
  with assms(1) have "ident (color s) \<in> set (obj_keys ob)" by simp
  from count_up_present [OF this] True show ?thesis by (auto simp: limit_stitch_def)
next
  case False
  from closest_of_defined [OF assms(2)] obtain u where u: "closest_of topColors (hex (color s)) = Some u"
    by blast
  from closest_of_mem [OF u] assms(1) have "ident (entry u) \<in> set (obj_keys ob)" by auto
  from count_up_present [OF this] u False show ?thesis by (auto simp: limit_stitch_def)
qed

lemma map_stitches_Some:
  assumes f: "\<And>s ob s' ob'. f s ob = Some (s', ob') \<Longrightarrow>
      obj_keys ob' = obj_keys ob \<and> same_but_color s s' \<and> ident (color s') \<in> set (obj_keys ob) \<and>
      (\<forall>k. count_at ob' k = count_at ob k + (if k = ident (color s') then 1 else 0))"
  shows "map_stitches f ss ob = Some (ss', ob') \<Longrightarrow>
     obj_keys ob' = obj_keys ob \<and> list_all2 same_but_color ss ss' \<and>
     (\<forall>s' \<in> set ss'. ident (color s') \<in> set (obj_keys ob)) \<and>
     (\<forall>k. count_at ob' k = count_at ob k + stitches_of k ss')"
proof (induction ss arbitrary: ob ss' ob')
  case Nil
  then show ?case by (simp add: stitches_of_def)
next
  case (Cons s ss)
  from Cons.prems obtain s1 ob1 ss1 where
    one: "f s ob = Some (s1, ob1)" and
    rest: "map_stitches f ss ob1 = Some (ss1, ob')" and
    ss': "ss' = s1 # ss1"
    by (auto split: bind_splits)
  note a = f [OF one]
  note b = Cons.IH [OF rest]
  show ?case
    using a b by (auto simp: ss' stitches_of_def)
qed

lemma map_stitches_defined:
  assumes keys: "\<And>s ob s' ob'. f s ob = Some (s', ob') \<Longrightarrow> obj_keys ob' = obj_keys ob"
    and step: "\<And>s ob. s \<in> set ss \<Longrightarrow> obj_keys ob = ks \<Longrightarrow> \<exists>r. f s ob = Some r"
  shows "obj_keys ob = ks \<Longrightarrow> \<exists>r. map_stitches f ss ob = Some r"
  using step
proof (induction ss arbitrary: ob)
  case Nil
  then show ?case by simp
next
  case (Cons s ss)
  from Cons.prems(2) [of s ob] Cons.prems(1) obtain s1 ob1 where
    one: "f s ob = Some (s1, ob1)" by force
  from keys [OF one] Cons.prems(1) have "obj_keys ob1 = ks" by simp
  from Cons.IH [OF this] Cons.prems(2) obtain r where "map_stitches f ss ob1 = Some r"
    by auto
  with one show ?case by (cases r) auto
qed

lemma limit_stitches_Some:
  "map_stitches (limit_stitch topColors) ss ob = Some (ss', ob') \<Longrightarrow>
     obj_keys ob' = obj_keys ob \<and> list_all2 same_but_color ss ss' \<and>
     (\<forall>s' \<in> set ss'. ident (color s') \<in> set (obj_keys ob)) \<and>
     (\<forall>k. count_at ob' k = count_at ob k + stitches_of k ss')"
proof (rule map_stitches_Some [where f = "limit_stitch topColors"])
  fix s ob s' ob'
  assume "limit_stitch topColors s ob = Some (s', ob')"
  from limit_stitch_Some [OF this]
  show "obj_keys ob' = obj_keys ob \<and> same_but_color s s' \<and> ident (color s') \<in> set (obj_keys ob) \<and>
      (\<forall>k. count_at ob' k = count_at ob k + (if k = ident (color s') then 1 else 0))"
    by simp
qed

lemma limit_stitches_defined:
  assumes "set (obj_keys ob) = set (map (ident \<circ> entry) topColors)" and "topColors \<noteq> []"
  shows "\<exists>r. map_stitches (limit_stitch topColors) ss ob = Some r"
proof (rule map_stitches_defined [where ks = "obj_keys ob"])
  show "\<And>s ob s' ob'. limit_stitch topColors s ob = Some (s', ob') \<Longrightarrow> obj_keys ob' = obj_keys ob"
    by (rule limit_stitch_Some(1))
  show "\<And>s ob'. s \<in> set ss \<Longrightarrow> obj_keys ob' = obj_keys ob \<Longrightarrow> \<exists>r. limit_stitch topColors s ob' = Some r"
    using assms limit_stitch_defined by simp
qed simp

lemma zeroed_keys:
  "set (obj_keys (zeroed cs ob)) = set (map (ident \<circ> entry) cs) \<union> set (obj_keys ob)"
  unfolding zeroed_def by (induction cs arbitrary: ob) (auto simp: obj_set_keys)

lemma zeroed_distinct: "distinct (obj_keys ob) \<Longrightarrow> distinct (obj_keys (zeroed cs ob))"
  unfolding zeroed_def by (induction cs arbitrary: ob) (auto simp: obj_set_distinct)

lemma zeroed_length: "length (zeroed cs ob) \<le> length cs + length ob"
  unfolding zeroed_def
proof (induction cs arbitrary: ob)
  case Nil
  then show ?case by simp
next
  case (Cons c cs)
  have "length (fold (\<lambda>c ob. obj_set (ident (entry c)) (c\<lparr>count := 0\<rparr>) ob) cs
           (obj_set (ident (entry c)) (c\<lparr>count := 0\<rparr>) ob))
        \<le> length cs + length (obj_set (ident (entry c)) (c\<lparr>count := 0\<rparr>) ob)"
    by (rule Cons.IH)
  also have "\<dots> \<le> length cs + Suc (length ob)"
    using obj_set_length [of "ident (entry c)" "c\<lparr>count := 0\<rparr>" ob] by simp
  finally show ?case by simp
qed

lemma zeroed_count_at:
  "(\<forall>k. count_at ob k = 0) \<Longrightarrow> count_at (zeroed cs ob) k = 0"
  unfolding zeroed_def
  by (induction cs arbitrary: ob) (auto simp: count_at_def obj_set_map_of)

lemma indicator_sum:
  "distinct ks \<Longrightarrow> k \<in> set ks \<Longrightarrow> sum_list (map (\<lambda>k'. if k = k' then 1 else 0) ks) = (1::nat)"
proof (induction ks)
  case Nil
  then show ?case by simp
next
  case (Cons a ks)
  show ?case
  proof (cases "k = a")
    case True
    with Cons.prems have "k \<notin> set ks" by simp
    then have "sum_list (map (\<lambda>k'. if k = k' then 1 else 0) ks) = (0::nat)"
      by (induction ks) auto
    with True show ?thesis by simp
  next
    case False
    with Cons show ?thesis by simp
  qed
qed

lemma stitches_of_sum:
  "distinct ks \<Longrightarrow> \<forall>s \<in> set ss. ident (color s) \<in> set ks \<Longrightarrow>
     sum_list (map (\<lambda>k. stitches_of k ss) ks) = length ss"
proof (induction ss)
  case Nil
  then show ?case by (simp add: stitches_of_def)
next
  case (Cons s ss)
  have "sum_list (map (\<lambda>k. stitches_of k (s # ss)) ks)
      = sum_list (map (\<lambda>k. (if ident (color s) = k then 1 else 0) + stitches_of k ss) ks)"
    by (rule arg_cong [where f = sum_list]) (simp add: stitches_of_def)
  also have "\<dots> = sum_list (map (\<lambda>k. if ident (color s) = k then 1 else 0) ks)
                  + sum_list (map (\<lambda>k. stitches_of k ss) ks)"
    by (simp add: sum_list_addf)
  also have "\<dots> = 1 + length ss"
    using Cons indicator_sum [of ks "ident (color s)"] by simp
  finally show ?case by simp
qed

lemma count_at_entry:
  "distinct (obj_keys ob) \<Longrightarrow> (k, u) \<in> set ob \<Longrightarrow> count_at ob k = count u"
  by (simp add: count_at_def obj_keys_def)

lemma counts_sum:
  "sum_list (map count (obj_values ob)) = sum_list (map (\<lambda>k. count_at ob k) (obj_keys ob))"
  if "distinct (obj_keys ob)"
proof -
  have "map count (obj_values ob) = map (\<lambda>k. count_at ob k) (obj_keys ob)"
    unfolding obj_values_def obj_keys_def map_map
    by (rule map_cong [OF refl]) (use that count_at_entry in \<open>auto simp: \<close>)
  then show ?thesis by simp
qed

lemma palette_coverageI:
  assumes "distinct (obj_keys (colorCounts p))"
    and "\<forall>s \<in> set (stitches p). ident (color s) \<in> set (obj_keys (colorCounts p))"
    and "\<forall>k. count_at (colorCounts p) k = stitches_of k (stitches p)"
  shows "palette_coverage p"
proof -
  have "\<forall>(k, u) \<in> set (colorCounts p). count u = stitches_of k (stitches p)"
    using assms(1,3) count_at_entry by fastforce
  moreover have "sum_list (map count (obj_values (colorCounts p))) = length (stitches p)"
    using counts_sum [OF assms(1)] stitches_of_sum [OF assms(1,2)] assms(3) by simp
  ultimately show ?thesis using assms(2) by (simp add: palette_coverage_def)
qed


lemma sort_by_count_length: "length (sort_by_count cs) = length cs"
  by (simp add: sort_by_count_def)

lemma limitColors_cases:
  assumes "limitColors p k = Some p'"
  obtains (unchanged) "p' = p" "k \<le> 0 \<or> int (length (colorCounts p)) \<le> k"
  | (remapped) topColors ss' ob' where
      "0 < k" "k < int (length (colorCounts p))"
      "topColors = take (nat k) (sort_by_count (obj_values (colorCounts p)))"
      "map_stitches (limit_stitch topColors) (stitches p) (zeroed topColors []) = Some (ss', ob')"
      "p' = p\<lparr>stitches := ss', colorCounts := ob'\<rparr>"
proof (cases "k \<le> 0 \<or> int (length (colorCounts p)) \<le> k")
  case True
  with assms have "p' = p"
    by (auto simp: limitColors_def Let_def sort_by_count_length obj_values_def split: if_splits)
  then show ?thesis using True by (rule unchanged)
next
  case False
  with assms obtain ss' ob' where
    "map_stitches (limit_stitch (take (nat k) (sort_by_count (obj_values (colorCounts p))))) (stitches p)
       (zeroed (take (nat k) (sort_by_count (obj_values (colorCounts p)))) []) = Some (ss', ob')"
    "p' = p\<lparr>stitches := ss', colorCounts := ob'\<rparr>"
    by (auto simp: limitColors_def Let_def sort_by_count_length obj_values_def split: bind_splits)
  with False show ?thesis by (intro remapped [OF _ _ refl]) auto
qed

lemma limitColors_defined: "\<exists>p'. limitColors p k = Some p'"
proof (cases "k \<le> 0 \<or> int (length (colorCounts p)) \<le> k")
  case True
  then show ?thesis
    by (auto simp: limitColors_def Let_def sort_by_count_length obj_values_def)
next
  case False
  define topColors where "topColors = take (nat k) (sort_by_count (obj_values (colorCounts p)))"
  have "length topColors = min (nat k) (length (colorCounts p))"
    by (simp add: topColors_def sort_by_count_length obj_values_def)
  with False have "topColors \<noteq> []"
    by auto
  moreover have "set (obj_keys (zeroed topColors [])) = set (map (ident \<circ> entry) topColors)"
    using zeroed_keys [of topColors "[]"] by (simp add: obj_keys_def)
  ultimately obtain r where "map_stitches (limit_stitch topColors) (stitches p) (zeroed topColors []) = Some r"
    using limit_stitches_defined by blast
  with False show ?thesis
    by (cases r) (auto simp: limitColors_def Let_def sort_by_count_length obj_values_def topColors_def)
qed

lemma limitColors_frame:
  assumes "limitColors p k = Some p'"
  shows "p' = p\<lparr>stitches := stitches p', colorCounts := colorCounts p'\<rparr>"
    and "list_all2 same_but_color (stitches p) (stitches p')"
  using assms
  by (cases rule: limitColors_cases;
      auto dest!: limit_stitches_Some simp: list_all2_same same_but_color_def)+

lemma limitColors_bound:
  assumes "limitColors p k = Some p'" and "1 \<le> k"
  shows "int (length (obj_keys (colorCounts p'))) \<le> k"
  using assms(1)
proof (cases rule: limitColors_cases)
  case unchanged
  with assms(2) show ?thesis by (simp add: obj_keys_def)
next
  case (remapped topColors ss' ob')
  from limit_stitches_Some [OF remapped(4)] have "obj_keys ob' = obj_keys (zeroed topColors [])"
    by simp
  then have "length (obj_keys ob') \<le> length topColors"
    using zeroed_length [of topColors "[]"] by (simp add: obj_keys_def)
  also have "\<dots> \<le> nat k" by (simp add: remapped(3))
  finally show ?thesis using remapped(1,5) by simp
qed

lemma limitColors_coverage:
  assumes "limitColors p k = Some p'" and "palette_coverage p"
  shows "palette_coverage p'"
  using assms(1)
proof (cases rule: limitColors_cases)
  case unchanged
  with assms(2) show ?thesis by simp
next
  case (remapped topColors ss' ob')
  note r = limit_stitches_Some [OF remapped(4)]
  have "distinct (obj_keys ob')"
    using r zeroed_distinct [of "[]" topColors] by (simp add: obj_keys_def)
  moreover have "\<forall>s \<in> set ss'. ident (color s) \<in> set (obj_keys ob')"
    using r by simp
  moreover have "\<forall>k. count_at ob' k = stitches_of k ss'"
    using r zeroed_count_at [of "[]" topColors] by (simp add: count_at_def)
  ultimately show ?thesis
    by (intro palette_coverageI) (simp_all add: remapped(5))
qed

section \<open>mergeColors: frame and counts\<close>


lemma merge_stitch_Some:
  assumes "merge_stitch colorMapping s ob = Some (s', ob')"
  shows "obj_keys ob' = obj_keys ob \<and> same_but_color s s' \<and> ident (color s') \<in> set (obj_keys ob) \<and>
      (\<forall>k. count_at ob' k = count_at ob k + (if k = ident (color s') then 1 else 0))"
    and "\<exists>u. obj_get colorMapping (ident (color s)) = Some u \<and> color s' = entry u"
proof -
  from assms obtain u where u: "obj_get colorMapping (ident (color s)) = Some u"
    and up: "count_up (ident (entry u)) ob = Some ob'" and s': "s' = s\<lparr>color := entry u\<rparr>"
    by (auto simp: merge_stitch_def split: bind_splits)
  show "obj_keys ob' = obj_keys ob \<and> same_but_color s s' \<and> ident (color s') \<in> set (obj_keys ob) \<and>
      (\<forall>k. count_at ob' k = count_at ob k + (if k = ident (color s') then 1 else 0))"
    using count_up_keys [OF up] count_up_key_present [OF up] count_up_count_at [OF up]
    by (simp add: s' same_but_color_def)
  show "\<exists>u. obj_get colorMapping (ident (color s)) = Some u \<and> color s' = entry u"
    using u by (simp add: s')
qed

lemma map_groups_counts:
  "map_groups gs (m, n) = Some (m', n') \<Longrightarrow> distinct (obj_keys n) \<Longrightarrow> \<forall>k. count_at n k = 0 \<Longrightarrow>
     distinct (obj_keys n') \<and> (\<forall>k. count_at n' k = 0)"
proof (induction gs arbitrary: m n)
  case Nil
  then show ?case by simp
next
  case (Cons g gs)
  from Cons.prems(1) obtain rep where rep: "most_used (colors g) = Some rep"
    and rest: "map_groups gs
         (fold (\<lambda>c m. obj_set (ident (entry c)) rep m) (colors g) m,
          obj_set (ident (entry rep)) (rep\<lparr>count := 0\<rparr>) n) = Some (m', n')"
    by (auto split: bind_splits)
  show ?case
  proof (rule Cons.IH [OF rest])
    show "distinct (obj_keys (obj_set (ident (entry rep)) (rep\<lparr>count := 0\<rparr>) n))"
      using Cons.prems(2) by (rule obj_set_distinct)
    show "\<forall>k. count_at (obj_set (ident (entry rep)) (rep\<lparr>count := 0\<rparr>) n) k = 0"
      using Cons.prems(3) by (simp add: count_at_def obj_set_map_of)
  qed
qed

lemma mergeColors_cases:
  assumes "mergeColors p tol = Some p'"
  obtains (unchanged) "p' = p" "tol \<le> 0 \<or> length (colorCounts p) \<le> 1"
  | (merged) cm nc ss' ob' where
      "0 < tol" "1 < length (colorCounts p)"
      "map_groups (group_colors tol (obj_values (colorCounts p))) ([], []) = Some (cm, nc)"
      "map_stitches (merge_stitch cm) (stitches p) nc = Some (ss', ob')"
      "p' = p\<lparr>stitches := ss', colorCounts := ob'\<rparr>"
proof (cases "tol \<le> 0 \<or> length (colorCounts p) \<le> 1")
  case True
  with assms have "p' = p"
    by (auto simp: mergeColors_def Let_def obj_values_def split: if_splits)
  then show ?thesis using True by (rule unchanged)
next
  case False
  with assms obtain cm nc ss' ob' where
    "map_groups (group_colors tol (obj_values (colorCounts p))) ([], []) = Some (cm, nc)"
    "map_stitches (merge_stitch cm) (stitches p) nc = Some (ss', ob')"
    "p' = p\<lparr>stitches := ss', colorCounts := ob'\<rparr>"
    by (auto simp: mergeColors_def Let_def obj_values_def split: bind_splits)
  with False show ?thesis by (intro merged) auto
qed

lemma merge_stitches_Some:
  "map_stitches (merge_stitch cm) ss ob = Some (ss', ob') \<Longrightarrow>
     obj_keys ob' = obj_keys ob \<and> list_all2 same_but_color ss ss' \<and>
     (\<forall>s' \<in> set ss'. ident (color s') \<in> set (obj_keys ob)) \<and>
     (\<forall>k. count_at ob' k = count_at ob k + stitches_of k ss')"
  by (rule map_stitches_Some [where f = "merge_stitch cm"]) (rule merge_stitch_Some(1))

lemma mergeColors_frame:
  assumes "mergeColors p tol = Some p'"
  shows "p' = p\<lparr>stitches := stitches p', colorCounts := colorCounts p'\<rparr>"
    and "list_all2 same_but_color (stitches p) (stitches p')"
  using assms
  by (cases rule: mergeColors_cases;
      auto dest!: merge_stitches_Some simp: list_all2_same same_but_color_def)+

lemma mergeColors_coverage:
  assumes "mergeColors p tol = Some p'" and "palette_coverage p"
  shows "palette_coverage p'"
  using assms(1)
proof (cases rule: mergeColors_cases)
  case unchanged
  with assms(2) show ?thesis by simp
next
  case (merged cm nc ss' ob')
  note r = merge_stitches_Some [OF merged(4)]
  have nc: "distinct (obj_keys nc) \<and> (\<forall>k. count_at nc k = 0)"
    by (rule map_groups_counts [OF merged(3)]) (simp_all add: obj_keys_def count_at_def)
  have "distinct (obj_keys ob')" using r nc by simp
  moreover have "\<forall>s \<in> set ss'. ident (color s) \<in> set (obj_keys ob')"
    using r by simp
  moreover have "\<forall>k. count_at ob' k = stitches_of k ss'"
    using r nc by simp
  ultimately show ?thesis
    by (intro palette_coverageI) (simp_all add: merged(5))
qed

section \<open>mergeColors: groups and their most-used colour\<close>



lemma most_used_defined: "cs \<noteq> [] \<Longrightarrow> \<exists>rep. most_used cs = Some rep"
  by (cases cs) (auto simp: most_used_def)

lemma join_group_ids:
  "(\<Union>g \<in> set (join_group tol c gs). group_ids g) = insert (ident (entry c)) (\<Union>g \<in> set gs. group_ids g)"
  by (induction gs) (auto simp: group_ids_def)

lemma join_group_apart:
  "ident (entry c) \<notin> (\<Union>g \<in> set gs. group_ids g) \<Longrightarrow> sorted_wrt apart gs \<Longrightarrow>
     sorted_wrt apart (join_group tol c gs)"
proof (induction gs)
  case Nil
  then show ?case by simp
next
  case (Cons g gs)
  show ?case
  proof (cases "isSimilarColor (hex (entry c)) (representative g) tol")
    case True
    with Cons.prems show ?thesis by (auto simp: apart_def group_ids_def)
  next
    case False
    from Cons have rest: "sorted_wrt apart (join_group tol c gs)" by simp
    have "\<forall>g' \<in> set (join_group tol c gs). apart g g'"
    proof
      fix g' assume g': "g' \<in> set (join_group tol c gs)"
      then have "group_ids g' \<subseteq> insert (ident (entry c)) (\<Union>g \<in> set gs. group_ids g)"
        using join_group_ids [of tol c gs] by blast
      moreover have "ident (entry c) \<notin> group_ids g" using Cons.prems(1) by simp
      moreover have "\<forall>h \<in> set gs. group_ids g \<inter> group_ids h = {}"
        using Cons.prems(2) by (simp add: apart_def)
      ultimately show "apart g g'" unfolding apart_def by blast
    qed
    with rest False show ?thesis by simp
  qed
qed

lemma join_group_anchored:
  "\<forall>g \<in> set gs. anchored tol g \<Longrightarrow> \<forall>g \<in> set (join_group tol c gs). anchored tol g"
proof (induction gs)
  case Nil
  then show ?case by (simp add: anchored_def)
next
  case (Cons g gs)
  show ?case
  proof (cases "isSimilarColor (hex (entry c)) (representative g) tol")
    case True
    from Cons.prems have "anchored tol g" by simp
    with True have "anchored tol (g\<lparr>colors := colors g @ [c], totalCount := totalCount g + count c\<rparr>)"
      by (auto simp: anchored_def)
    with True Cons.prems show ?thesis by simp
  next
    case False
    with Cons show ?thesis by simp
  qed
qed

lemma group_colors_invariants:
  assumes "distinct (map (ident \<circ> entry) cs)"
  shows "(\<Union>g \<in> set (group_colors tol cs). group_ids g) = set (map (ident \<circ> entry) cs)"
    and "sorted_wrt apart (group_colors tol cs)"
    and "\<forall>g \<in> set (group_colors tol cs). anchored tol g"
proof -
  have "distinct (map (ident \<circ> entry) cs) \<Longrightarrow>
        set (map (ident \<circ> entry) cs) \<inter> (\<Union>g \<in> set gs. group_ids g) = {} \<Longrightarrow>
        sorted_wrt apart gs \<Longrightarrow> \<forall>g \<in> set gs. anchored tol g \<Longrightarrow>
        (\<Union>g \<in> set (fold (join_group tol) cs gs). group_ids g)
           = set (map (ident \<circ> entry) cs) \<union> (\<Union>g \<in> set gs. group_ids g) \<and>
        sorted_wrt apart (fold (join_group tol) cs gs) \<and>
        (\<forall>g \<in> set (fold (join_group tol) cs gs). anchored tol g)" for gs
  proof (induction cs arbitrary: gs)
    case Nil
    then show ?case by simp
  next
    case (Cons c cs)
    have fresh: "ident (entry c) \<notin> (\<Union>g \<in> set gs. group_ids g)"
      using Cons.prems(2) by auto
    have 1: "distinct (map (ident \<circ> entry) cs)" using Cons.prems(1) by (simp add: comp_def)
    have 2: "set (map (ident \<circ> entry) cs) \<inter> (\<Union>g \<in> set (join_group tol c gs). group_ids g) = {}"
      unfolding join_group_ids using Cons.prems(1,2) by auto
    have 3: "sorted_wrt apart (join_group tol c gs)"
      using fresh Cons.prems(3) by (rule join_group_apart)
    have 4: "\<forall>g \<in> set (join_group tol c gs). anchored tol g"
      using Cons.prems(4) by (rule join_group_anchored)
    from Cons.IH [OF 1 2 3 4] show ?case
      unfolding join_group_ids by auto
  qed
  from this [of "[]"] assms
  show "(\<Union>g \<in> set (group_colors tol cs). group_ids g) = set (map (ident \<circ> entry) cs)"
    and "sorted_wrt apart (group_colors tol cs)"
    and "\<forall>g \<in> set (group_colors tol cs). anchored tol g"
    by (simp_all add: group_colors_def)
qed

lemma anchored_nonempty: "anchored tol g \<Longrightarrow> colors g \<noteq> []"
  by (auto simp: anchored_def)


lemma fold_mapping_get:
  "obj_get (fold (\<lambda>c m. obj_set (ident (entry c)) rep m) cs m) k =
     (if k \<in> set (map (ident \<circ> entry) cs) then Some rep else obj_get m k)"
  by (induction cs arbitrary: m) (auto simp: obj_get_def obj_set_map_of)

lemma map_groups_Some:
  "map_groups gs (m, n) = Some (m', n') \<Longrightarrow> sorted_wrt apart gs \<Longrightarrow>
     (\<forall>g \<in> set gs. \<forall>k \<in> group_ids g. obj_get m' k = most_used (colors g)) \<and>
     (\<forall>k. k \<notin> (\<Union>g \<in> set gs. group_ids g) \<longrightarrow> obj_get m' k = obj_get m k) \<and>
     (\<forall>g \<in> set gs. \<forall>rep. most_used (colors g) = Some rep \<longrightarrow> ident (entry rep) \<in> set (obj_keys n')) \<and>
     set (obj_keys n) \<subseteq> set (obj_keys n') \<and>
     (\<forall>k \<in> set (obj_keys n'). k \<in> set (obj_keys n) \<or>
        (\<exists>g \<in> set gs. \<exists>rep. most_used (colors g) = Some rep \<and> k = ident (entry rep)))"
proof (induction gs arbitrary: m n)
  case Nil
  then show ?case by simp
next
  case (Cons g gs)
  from Cons.prems(1) obtain rep where rep: "most_used (colors g) = Some rep"
    and rest: "map_groups gs
         (fold (\<lambda>c m. obj_set (ident (entry c)) rep m) (colors g) m,
          obj_set (ident (entry rep)) (rep\<lparr>count := 0\<rparr>) n) = Some (m', n')"
    by (auto split: bind_splits)
  from Cons.prems(2) have sorted: "sorted_wrt apart gs"
    and "\<forall>g' \<in> set gs. apart g g'"
    by simp_all
  then have apart: "\<forall>g' \<in> set gs. group_ids g \<inter> group_ids g' = {}"
    by (simp add: apart_def)
  note IH = Cons.IH [OF rest sorted]
  have own: "\<forall>k \<in> group_ids g. obj_get m' k = most_used (colors g)"
  proof
    fix k assume k: "k \<in> group_ids g"
    with apart have "k \<notin> (\<Union>g \<in> set gs. group_ids g)" by blast
    with IH have "obj_get m' k = obj_get (fold (\<lambda>c m. obj_set (ident (entry c)) rep m) (colors g) m) k"
      by blast
    also have "\<dots> = Some rep" using k by (simp add: fold_mapping_get group_ids_def)
    finally show "obj_get m' k = most_used (colors g)" by (simp add: rep)
  qed
  have other: "\<forall>k. k \<notin> (\<Union>g \<in> set (g # gs). group_ids g) \<longrightarrow> obj_get m' k = obj_get m k"
  proof (intro allI impI)
    fix k assume k: "k \<notin> (\<Union>g \<in> set (g # gs). group_ids g)"
    then have "k \<notin> (\<Union>g \<in> set gs. group_ids g)" and kg: "k \<notin> group_ids g" by auto
    with IH have "obj_get m' k = obj_get (fold (\<lambda>c m. obj_set (ident (entry c)) rep m) (colors g) m) k"
      by blast
    also have "\<dots> = obj_get m k" using kg by (simp add: fold_mapping_get group_ids_def)
    finally show "obj_get m' k = obj_get m k" .
  qed
  have keys1: "set (obj_keys (obj_set (ident (entry rep)) (rep\<lparr>count := 0\<rparr>) n))
      = insert (ident (entry rep)) (set (obj_keys n))"
    by (rule obj_set_keys)
  have reps: "\<forall>g' \<in> set (g # gs). \<forall>r. most_used (colors g') = Some r \<longrightarrow> ident (entry r) \<in> set (obj_keys n')"
    using IH rep keys1 by auto
  have sub: "set (obj_keys n) \<subseteq> set (obj_keys n')"
    using IH keys1 by auto
  have origin: "\<forall>k \<in> set (obj_keys n'). k \<in> set (obj_keys n) \<or>
        (\<exists>g' \<in> set (g # gs). \<exists>r. most_used (colors g') = Some r \<and> k = ident (entry r))"
  proof
    fix k assume "k \<in> set (obj_keys n')"
    with IH have "k \<in> set (obj_keys (obj_set (ident (entry rep)) (rep\<lparr>count := 0\<rparr>) n)) \<or>
        (\<exists>g' \<in> set gs. \<exists>r. most_used (colors g') = Some r \<and> k = ident (entry r))"
      by blast
    then show "k \<in> set (obj_keys n) \<or>
        (\<exists>g' \<in> set (g # gs). \<exists>r. most_used (colors g') = Some r \<and> k = ident (entry r))"
      unfolding keys1 using rep by auto
  qed
  from own IH other reps sub origin show ?case by simp
qed

lemma map_groups_defined:
  "\<forall>g \<in> set gs. colors g \<noteq> [] \<Longrightarrow> \<exists>r. map_groups gs st = Some r"
proof (induction gs arbitrary: st)
  case Nil
  then show ?case by simp
next
  case (Cons g gs)
  from Cons.prems most_used_defined [of "colors g"] obtain rep where
    "most_used (colors g) = Some rep" by auto
  with Cons show ?case by (cases st) auto
qed






lemma mergeColors_defined:
  assumes ids: "distinct (map (ident \<circ> entry) (obj_values (colorCounts p)))"
    and known: "\<forall>s \<in> set (stitches p). ident (color s) \<in> set (map (ident \<circ> entry) (obj_values (colorCounts p)))"
  shows "\<exists>p'. mergeColors p tol = Some p'"
proof (cases "tol \<le> 0 \<or> length (colorCounts p) \<le> 1")
  case True
  then show ?thesis by (auto simp: mergeColors_def Let_def obj_values_def)
next
  case False
  note inv = group_colors_invariants [OF ids, of tol]
  let ?gs = "group_colors tol (obj_values (colorCounts p))"
  from inv(3) have "\<forall>g \<in> set ?gs. colors g \<noteq> []" by (auto dest: anchored_nonempty)
  from map_groups_defined [OF this] obtain cm nc where mg: "map_groups ?gs ([], []) = Some (cm, nc)"
    by force
  note facts = map_groups_Some [OF mg inv(2)]
  have "\<exists>r. map_stitches (merge_stitch cm) (stitches p) nc = Some r"
  proof (rule map_stitches_defined [where ks = "obj_keys nc"])
    show "\<And>s ob s' ob'. merge_stitch cm s ob = Some (s', ob') \<Longrightarrow> obj_keys ob' = obj_keys ob"
      using merge_stitch_Some(1) by blast
    show "\<exists>r. merge_stitch cm s ob = Some r" if "s \<in> set (stitches p)" "obj_keys ob = obj_keys nc" for s ob
    proof -
      from that(1) known inv(1) obtain g where g: "g \<in> set ?gs" "ident (color s) \<in> group_ids g"
        by blast
      with inv(3) obtain rep where rep: "most_used (colors g) = Some rep"
        using most_used_defined anchored_nonempty by blast
      with facts g have "obj_get cm (ident (color s)) = Some rep" by auto
      moreover from facts g rep that(2) have "ident (entry rep) \<in> set (obj_keys ob)" by auto
      ultimately show ?thesis
        using count_up_present [of "ident (entry rep)" ob] by (auto simp: merge_stitch_def)
    qed
  qed simp
  then obtain ss' ob' where "map_stitches (merge_stitch cm) (stitches p) nc = Some (ss', ob')"
    by force
  with mg False show ?thesis by (simp add: mergeColors_def Let_def obj_values_def)
qed






section \<open>limitColors: the bound on the number of colours\<close>

text \<open>
  C6: for every pattern \<open>p\<close> and every integer \<open>k \<ge> 1\<close>, \<^verbatim>\<open>limitColors(p, k)\<close> returns a
  pattern whose \<^verbatim>\<open>colorCounts\<close> has at most \<open>k\<close> keys (all of them distinct) and whose list
  of stitches is as long as that of \<open>p\<close>.
\<close>

theorem limitColors_at_most_k:
  assumes "1 \<le> k"
  shows "\<exists>p'. limitColors p k = Some p' \<and>
           int (length (obj_keys (colorCounts p'))) \<le> k \<and>
           int (card (set (obj_keys (colorCounts p')))) \<le> k \<and>
           length (stitches p') = length (stitches p)"
proof -
  obtain p' where p': "limitColors p k = Some p'"
    using limitColors_defined by blast
  have keys: "int (length (obj_keys (colorCounts p'))) \<le> k"
    using p' assms by (rule limitColors_bound)
  have "card (set (obj_keys (colorCounts p'))) \<le> length (obj_keys (colorCounts p'))"
    by (rule card_length)
  with keys have "int (card (set (obj_keys (colorCounts p')))) \<le> k" by linarith
  moreover have "length (stitches p') = length (stitches p)"
    using limitColors_frame(2) [OF p'] by (simp add: list_all2_lengthD)
  ultimately show ?thesis using p' keys by blast
qed

theorem limitColors_at_most_k_witness:
  "(1::int) \<le> 2 \<and> length (colorCounts three_colors) = 3 \<and>
   (\<exists>p'. limitColors three_colors 2 = Some p' \<and>
      int (length (obj_keys (colorCounts p'))) \<le> 2 \<and>
      int (card (set (obj_keys (colorCounts p')))) \<le> 2 \<and>
      length (stitches p') = 4)"
proof -
  have h: "(1::int) \<le> 2" by simp
  have n: "length (stitches three_colors) = 4" "length (colorCounts three_colors) = 3"
    by (simp_all add: three_colors_def)
  from limitColors_at_most_k [OF h, of three_colors] show ?thesis
    unfolding n by simp
qed

section \<open>The examples, evaluated\<close>

lemma isSimilarColor_iff:
  "isSimilarColor (r1, g1, b1) (r2, g2, b2) t \<longleftrightarrow>
     0 < t \<and> weighted (r1 - r2) (g1 - g2) (b1 - b2) < t * t"
proof -
  let ?w = "weighted (r1 - r2) (g1 - g2) (b1 - b2)"
  have w: "0 \<le> ?w" by (simp add: weighted_def)
  have "sqrt ?w < t \<longleftrightarrow> 0 < t \<and> ?w < t * t"
  proof (cases "0 < t")
    case True
    then have "sqrt ?w < t \<longleftrightarrow> sqrt ?w < sqrt (t * t)" by simp
    also have "\<dots> \<longleftrightarrow> ?w < t * t" by (rule real_sqrt_less_iff)
    finally show ?thesis using True by simp
  next
    case False
    have "0 \<le> sqrt ?w" using w by simp
    with False show ?thesis by linarith
  qed
  then show ?thesis by (simp add: isSimilarColor_def colorDistance_def)
qed

lemma array_index_examples:
  "array_index ''310'' = Some 310" "array_index ''3371'' = Some 3371" "array_index ''B5200'' = None"
  by (simp_all add: array_index_def is_digit_def decimal_value_def)

lemma limitColors_example: "limitColors three_colors 2 = Some limited_example"
  by (simp add: limitColors_def three_colors_def limited_example_def Let_def obj_values_def
      sort_by_count_def zeroed_def obj_set_def obj_keys_def key_before_def array_index_examples
      limit_stitch_def closest_of_def closest_step_def rgb_distance_def weighted_def
      black_def black_brown_def snow_white_def cross_def)

lemma mergeColors_example: "mergeColors three_colors 30 = Some merged_example"
  by (simp add: mergeColors_def three_colors_def merged_example_def Let_def obj_values_def
      group_colors_def isSimilarColor_iff most_used_def obj_set_def obj_keys_def obj_get_def
      key_before_def array_index_examples merge_stitch_def weighted_def
      black_def black_brown_def snow_white_def cross_def)

section \<open>mergeColors: the representative of a group\<close>



section \<open>limitColors and mergeColors: what stays\<close>

lemma unchanged_but_colorsI:
  assumes "p' = p\<lparr>stitches := stitches p', colorCounts := colorCounts p'\<rparr>"
    and "list_all2 same_but_color (stitches p) (stitches p')"
  shows "unchanged_but_colors p p'"
proof -
  from assms(2) have len: "length (stitches p') = length (stitches p)"
    by (simp add: list_all2_lengthD)
  have "stitch_x s' = stitch_x s \<and> stitch_y s' = stitch_y s" if "same_but_color s s'" for s s'
    using that by (cases s; cases s') (simp add: same_but_color_def)
  with assms(2) have "map stitch_x (stitches p') = map stitch_x (stitches p)"
    "map stitch_y (stitches p') = map stitch_y (stitches p)"
    by (auto simp: list_eq_iff_nth_eq list_all2_conv_all_nth)
  moreover have "width p' = width p" "height p' = height p"
    by (subst assms(1), simp)+
  ultimately show ?thesis
    unfolding unchanged_but_colors_def using len assms by blast
qed

text \<open>
  C10: \<^verbatim>\<open>limitColors\<close> (which always returns) and \<^verbatim>\<open>mergeColors\<close> (whenever it returns)
  change nothing but colours: the returned pattern has as many stitches as the input, the
  same \<open>(x, y)\<close> at each position of the stitch list, the same \<^verbatim>\<open>width\<close> and \<^verbatim>\<open>height\<close>; it
  differs from the input at most in the \<^verbatim>\<open>color\<close> of its stitches and in \<^verbatim>\<open>colorCounts\<close>.
\<close>

theorem colour_reduction_frame:
  "(\<exists>p'. limitColors p k = Some p') \<and>
   (\<forall>p'. limitColors p k = Some p' \<longrightarrow> unchanged_but_colors p p') \<and>
   (\<forall>p'. mergeColors p tol = Some p' \<longrightarrow> unchanged_but_colors p p')"
proof (intro conjI allI impI)
  show "\<exists>p'. limitColors p k = Some p'" by (rule limitColors_defined)
next
  fix p' assume "limitColors p k = Some p'"
  then show "unchanged_but_colors p p'"
    by (intro unchanged_but_colorsI limitColors_frame)
next
  fix p' assume "mergeColors p tol = Some p'"
  then show "unchanged_but_colors p p'"
    by (intro unchanged_but_colorsI mergeColors_frame)
qed

theorem colour_reduction_frame_witness:
  "limitColors three_colors 2 = Some limited_example \<and>
   mergeColors three_colors 30 = Some merged_example \<and>
   unchanged_but_colors three_colors limited_example \<and>
   unchanged_but_colors three_colors merged_example \<and>
   map stitch_x (stitches limited_example) = [0, 1, 0, 1] \<and>
   map stitch_y (stitches merged_example) = [0, 0, 1, 1]"
proof -
  note frame = colour_reduction_frame [of three_colors 2 30]
  from frame limitColors_example have 1: "unchanged_but_colors three_colors limited_example" by blast
  from frame mergeColors_example have 2: "unchanged_but_colors three_colors merged_example" by blast
  from 1 have "map stitch_x (stitches limited_example) = [0, 1, 0, 1]"
    by (simp add: unchanged_but_colors_def three_colors_def cross_def)
  moreover from 2 have "map stitch_y (stitches merged_example) = [0, 0, 1, 1]"
    by (simp add: unchanged_but_colors_def three_colors_def cross_def)
  ultimately show ?thesis using 1 2 limitColors_example mergeColors_example by blast
qed

section \<open>Tallies: applyShapeMask and convertToPattern\<close>

lemma tally_keys: "set (obj_keys (tally c ob)) = insert (ident c) (set (obj_keys ob))"
  by (simp add: tally_def obj_set_keys split: option.split)

lemma tally_distinct: "distinct (obj_keys ob) \<Longrightarrow> distinct (obj_keys (tally c ob))"
  by (simp add: tally_def obj_set_distinct split: option.split)

lemma tally_count_at:
  "count_at (tally c ob) k = count_at ob k + (if k = ident c then 1 else 0)"
  by (simp add: tally_def count_at_def obj_get_def obj_set_map_of split: option.split)

lemma stitches_of_snoc:
  "stitches_of k (ss @ [s]) = stitches_of k ss + (if k = ident (color s) then 1 else 0)"
  by (auto simp: stitches_of_def)

lemma tallied_empty: "tallied [] []"
  by (simp add: tallied_def obj_keys_def count_at_def stitches_of_def)

lemma tallied_snoc: "tallied ss ob \<Longrightarrow> tallied (ss @ [s]) (tally (color s) ob)"
  unfolding tallied_def
  by (auto simp: tally_keys tally_distinct tally_count_at stitches_of_snoc)

lemma tallied_fold:
  "tallied ss0 ob \<Longrightarrow> tallied (ss0 @ ss) (fold (\<lambda>s ob. tally (color s) ob) ss ob)"
proof (induction ss arbitrary: ss0 ob)
  case Nil
  then show ?case by simp
next
  case (Cons s ss)
  from Cons.IH [OF tallied_snoc [OF Cons.prems, of s]] show ?case by simp
qed

lemma tallied_coverage:
  "tallied (stitches p) (colorCounts p) \<Longrightarrow> palette_coverage p"
  by (rule palette_coverageI) (simp_all add: tallied_def)

lemma applyShapeMask_coverage:
  "palette_coverage p \<Longrightarrow> palette_coverage (applyShapeMask p shape)"
proof (cases "shape = None \<or> shape = Some ''rectangle'' \<or> shape = Some []")
  case True
  moreover assume "palette_coverage p"
  ultimately show ?thesis by (auto simp: applyShapeMask_def)
next
  case False
  then obtain sh where sh: "shape = Some sh" "sh \<noteq> ''rectangle''" "sh \<noteq> []" by auto
  let ?ss = "filter (inside sh (width p) (height p)) (stitches p)"
  from tallied_fold [OF tallied_empty, of ?ss]
  have "tallied ?ss (fold (\<lambda>s ob. tally (color s) ob) ?ss [])" by simp
  then have "palette_coverage (p\<lparr>stitches := ?ss, colorCounts := fold (\<lambda>s ob. tally (color s) ob) ?ss []\<rparr>)"
    by (intro tallied_coverage) simp
  then show ?thesis using sh by (simp add: applyShapeMask_def Let_def)
qed

lemma stitch_cell_fields:
  "\<exists>dmc. st_stitches (stitch_cell c y x sx sy r g b st) = st_stitches st @ [\<lparr>stitch_x = x, stitch_y = y, color = dmc\<rparr>] \<and>
         st_colorCounts (stitch_cell c y x sx sy r g b st) = tally dmc (st_colorCounts st)"
  and "st_processed (stitch_cell c y x sx sy r g b st) = st_processed st"
  and "st_progress (stitch_cell c y x sx sy r g b st) = st_progress st"
  by (simp_all add: stitch_cell_def Let_def split: prod.split)

lemma sample_cell_cases:
  obtains (skip) "st_stitches (sample_cell c y x st) = st_stitches st"
      "st_colorCounts (sample_cell c y x st) = st_colorCounts st"
  | (stitch) dmc where
      "st_stitches (sample_cell c y x st) = st_stitches st @ [\<lparr>stitch_x = x, stitch_y = y, color = dmc\<rparr>]"
      "st_colorCounts (sample_cell c y x st) = tally dmc (st_colorCounts st)"
proof -
  let ?idx = "(sampleY_of c y * image_width c + sampleX_of c x) * 4"
  let ?wd = "st_workingData st"
  show ?thesis
  proof (cases "?idx + 3 < length ?wd \<and> 128 < ?wd ! (?idx + 3) \<and>
      \<not> is_background c (?wd ! ?idx) (?wd ! (?idx + 1)) (?wd ! (?idx + 2))")
    case True
    from stitch_cell_fields(1) [of c y x "sampleX_of c x" "sampleY_of c y"
        "?wd ! ?idx" "?wd ! (?idx + 1)" "?wd ! (?idx + 2)" st]
    obtain dmc where "st_stitches (stitch_cell c y x (sampleX_of c x) (sampleY_of c y)
        (?wd ! ?idx) (?wd ! (?idx + 1)) (?wd ! (?idx + 2)) st) = st_stitches st @ [\<lparr>stitch_x = x, stitch_y = y, color = dmc\<rparr>]"
      "st_colorCounts (stitch_cell c y x (sampleX_of c x) (sampleY_of c y)
        (?wd ! ?idx) (?wd ! (?idx + 1)) (?wd ! (?idx + 2)) st) = tally dmc (st_colorCounts st)"
      by blast
    with True show ?thesis by (intro stitch [of dmc]) (simp_all add: sample_cell_def Let_def)
  next
    case False
    then show ?thesis by (intro skip) (auto simp: sample_cell_def Let_def)
  qed
qed

lemma sample_cell_tallied:
  "tallied (st_stitches st) (st_colorCounts st) \<Longrightarrow>
   tallied (st_stitches (sample_cell c y x st)) (st_colorCounts (sample_cell c y x st))"
proof (cases rule: sample_cell_cases [of c y x st])
  case skip
  assume "tallied (st_stitches st) (st_colorCounts st)"
  with skip show ?thesis by simp
next
  case (stitch dmc)
  assume "tallied (st_stitches st) (st_colorCounts st)"
  from tallied_snoc [OF this, of "\<lparr>stitch_x = x, stitch_y = y, color = dmc\<rparr>"] stitch
  show ?thesis by simp
qed

lemma fold_invariant:
  "(\<And>x a. P a \<Longrightarrow> P (f x a)) \<Longrightarrow> P a \<Longrightarrow> P (fold f xs a)"
  by (induction xs arbitrary: a) auto

lemma sample_row_tallied:
  "tallied (st_stitches st) (st_colorCounts st) \<Longrightarrow>
   tallied (st_stitches (sample_row c y st)) (st_colorCounts (sample_row c y st))"
  unfolding sample_row_def
  by (rule fold_invariant [where P = "\<lambda>st. tallied (st_stitches st) (st_colorCounts st)"])
     (rule sample_cell_tallied)

lemma processChunk_invariant:
  assumes row: "\<And>y st. P st \<Longrightarrow> P (sample_row c y st)"
    and report: "\<And>st v. P st \<Longrightarrow> P (st\<lparr>st_progress := st_progress st @ [v]\<rparr>)"
  shows "P st \<Longrightarrow> processChunk frames c startY st = Some res \<Longrightarrow> \<exists>st'. P st' \<and> res = resolved c st'"
proof (induction frames arbitrary: startY st)
  case 0
  then show ?case by simp
next
  case (Suc frames)
  show ?case
  proof (cases "endY_of startY (gridHeight c)")
    case None
    with Suc.prems report show ?thesis by auto
  next
    case (Some endY)
    let ?st1 = "fold (sample_row c) [startY..<endY] st"
    let ?st2 = "?st1\<lparr>st_progress := st_progress ?st1 @ [percent (st_processed ?st1) (cells c)]\<rparr>"
    have "P ?st1" using row Suc.prems(1) by (rule fold_invariant)
    then have P2: "P ?st2" by (rule report)
    show ?thesis
    proof (cases "before_end endY (gridHeight c)")
      case True
      with Suc.prems(2) Some have "processChunk frames c endY ?st2 = Some res"
        by (simp add: Let_def)
      from Suc.IH [OF P2 this] show ?thesis .
    next
      case False
      with Suc.prems(2) Some have "res = resolved c ?st2" by (simp add: Let_def)
      with P2 show ?thesis by blast
    qed
  qed
qed

lemma convertToPattern_coverage:
  assumes "convertToPattern frames T img gridSize opt = Some (p, r)"
  shows "palette_coverage p"
proof -
  let ?c = "run_grid T img gridSize opt"
  from assms have run: "processChunk frames ?c 0 (run_start img) = Some (p, r)"
    by (simp add: convertToPattern_def)
  have "tallied (st_stitches (run_start img)) (st_colorCounts (run_start img))"
    by (simp add: run_start_def tallied_empty)
  with run obtain st' where "tallied (st_stitches st') (st_colorCounts st')" "(p, r) = resolved ?c st'"
    using processChunk_invariant [where P = "\<lambda>st. tallied (st_stitches st) (st_colorCounts st)" and c = ?c]
      sample_row_tallied by force
  then show ?thesis by (intro tallied_coverage) (simp add: resolved_def)
qed

section \<open>The palette coverage invariant\<close>

lemma isSimilarColor_code [code]:
  "isSimilarColor c1 c2 t =
     (case c1 of (r1, g1, b1) \<Rightarrow> case c2 of (r2, g2, b2) \<Rightarrow>
        0 < t \<and> weighted (r1 - r2) (g1 - g2) (b1 - b2) < t * t)"
  by (cases c1; cases c2) (simp add: isSimilarColor_iff)

lemma red_square_run: "convertToPattern 1 two_table red_square 2 plain = Some (red_pattern, [Fin 100])"
  by code_simp


lemma three_colors_coverage: "palette_coverage three_colors"
  by (simp add: palette_coverage_def three_colors_def obj_keys_def obj_values_def stitches_of_def
      cross_def black_def black_brown_def snow_white_def)

text \<open>
  C1: every pattern that \<^verbatim>\<open>convertToPattern\<close> resolves with satisfies the invariant (every
  stitch's colour id is a key of \<^verbatim>\<open>colorCounts\<close>, the count under each key is the number of
  stitches of that colour id, the counts add up to the number of stitches), and so does
  every pattern that \<^verbatim>\<open>limitColors\<close>, \<^verbatim>\<open>mergeColors\<close> or \<^verbatim>\<open>applyShapeMask\<close> returns for a
  pattern that satisfies it.
\<close>

theorem palette_coverage_preserved:
  "(\<forall>frames p r. convertToPattern frames T img gridSize opt = Some (p, r) \<longrightarrow> palette_coverage p) \<and>
   (palette_coverage q \<longrightarrow>
      (\<forall>q'. limitColors q k = Some q' \<longrightarrow> palette_coverage q') \<and>
      (\<forall>q'. mergeColors q tol = Some q' \<longrightarrow> palette_coverage q') \<and>
      palette_coverage (applyShapeMask q shape))"
proof (intro conjI allI impI)
  fix frames p r
  assume "convertToPattern frames T img gridSize opt = Some (p, r)"
  then show "palette_coverage p" by (rule convertToPattern_coverage)
next
  fix q' assume "palette_coverage q" "limitColors q k = Some q'"
  from this(2,1) show "palette_coverage q'" by (rule limitColors_coverage)
next
  fix q' assume "palette_coverage q" "mergeColors q tol = Some q'"
  from this(2,1) show "palette_coverage q'" by (rule mergeColors_coverage)
next
  assume "palette_coverage q"
  then show "palette_coverage (applyShapeMask q shape)" by (rule applyShapeMask_coverage)
qed

theorem palette_coverage_preserved_witness:
  "convertToPattern 1 two_table red_square 2 plain = Some (red_pattern, [Fin 100]) \<and>
   palette_coverage red_pattern \<and>
   palette_coverage three_colors \<and>
   palette_coverage limited_example \<and>
   palette_coverage merged_example \<and>
   palette_coverage (applyShapeMask three_colors (Some ''circle''))"
proof -
  note kept = palette_coverage_preserved
    [of two_table red_square 2 plain three_colors 2 30 "Some ''circle''"]
  note run = kept [THEN conjunct1, rule_format]
  note post = kept [THEN conjunct2, rule_format, OF three_colors_coverage]
  have 1: "palette_coverage red_pattern" using red_square_run by (rule run)
  have 2: "palette_coverage limited_example"
    using limitColors_example by (rule post [THEN conjunct1, rule_format])
  have 3: "palette_coverage merged_example"
    using mergeColors_example by (rule post [THEN conjunct2, THEN conjunct1, rule_format])
  have 4: "palette_coverage (applyShapeMask three_colors (Some ''circle''))"
    by (rule post [THEN conjunct2, THEN conjunct2])
  from red_square_run 1 three_colors_coverage 2 3 4 show ?thesis by (intro conjI)
qed

section \<open>convertToPattern: frames, dimensions and coordinates\<close>






lemma processChunk_never:
  "gridHeight c = Infinity \<Longrightarrow> processChunk frames c startY st = None"
  by (induction frames arbitrary: startY st) (simp_all add: endY_of_def before_end_def Let_def)

lemma processChunk_at_once:
  assumes "gridHeight c = NaN \<or> gridHeight c = Fin 0"
  shows "processChunk (Suc frames) c 0 st =
     Some (resolved c (st\<lparr>st_progress := st_progress st @ [percent (st_processed st) (cells c)]\<rparr>))"
  using assms by (auto simp: endY_of_def before_end_def Let_def)




section \<open>convertToPattern: the grid height\<close>





section \<open>convertToPattern: buffers without pixels\<close>

text \<open>
  C2, as the code has it: \<^verbatim>\<open>convertToPattern\<close> validates nothing and has no way to reject
  (its promise is built with \<^verbatim>\<open>resolve\<close> alone). For a pixel buffer whose width or height
  is zero it either never resolves (width zero, height and grid width positive: the grid
  height is \<^verbatim>\<open>Infinity\<close>), or resolves after the first chunk with an empty pattern, of
  height 0 (width positive) or \<^verbatim>\<open>NaN\<close> (width zero), having reported the progress \<^verbatim>\<open>NaN\<close>.
\<close>

theorem empty_buffer_not_rejected:
  assumes "img_width img = 0 \<or> img_height img = 0"
  shows "if img_width img = 0 \<and> 0 < img_height img \<and> 0 < gridSize
         then \<forall>frames. convertToPattern frames T img gridSize opt = None
         else \<forall>frames. convertToPattern (Suc frames) T img gridSize opt =
                Some (\<lparr>stitches = [], width = gridSize,
                        height = (if img_width img = 0 then NaN else Fin 0), colorCounts = []\<rparr>,
                      [NaN])"
proof (cases "img_width img = 0 \<and> 0 < img_height img \<and> 0 < gridSize")
  case True
  then have "gridHeight (run_grid T img gridSize opt) = Infinity"
    by (simp add: run_grid_def gridHeight_of_def)
  from processChunk_never [OF this] True show ?thesis by (simp add: convertToPattern_def)
next
  case False
  let ?c = "run_grid T img gridSize opt"
  from False assms have gh: "gridHeight ?c = (if img_width img = 0 then NaN else Fin 0)"
    by (auto simp: run_grid_def gridHeight_of_def js_round_def)
  then have "gridHeight ?c = NaN \<or> gridHeight ?c = Fin 0" by simp
  note once = processChunk_at_once [OF this, of _ "run_start img"]
  have "percent (st_processed (run_start img)) (cells ?c) = NaN"
    using gh by (auto simp: run_grid_def run_start_def percent_def total_of_def split: if_splits)
  with once gh have "convertToPattern (Suc frames) T img gridSize opt =
                Some (\<lparr>stitches = [], width = gridSize,
                        height = (if img_width img = 0 then NaN else Fin 0), colorCounts = []\<rparr>,
                      [NaN])" for frames
    by (simp add: convertToPattern_def resolved_def run_start_def) (simp add: run_grid_def)
  then show ?thesis by (simp only: False if_False) blast
qed

theorem empty_buffer_not_rejected_witness:
  "(img_width no_columns = 0 \<or> img_height no_columns = 0) \<and>
   convertToPattern 7 two_table no_columns 1 plain = None \<and>
   convertToPattern 7 two_table no_columns 0 plain =
     Some (\<lparr>stitches = [], width = 0, height = NaN, colorCounts = []\<rparr>, [NaN])"
proof -
  have h: "img_width no_columns = 0 \<or> img_height no_columns = 0" by (simp add: no_columns_def)
  from empty_buffer_not_rejected [OF h, of 1 two_table plain]
  have 1: "convertToPattern 7 two_table no_columns 1 plain = None"
    by (simp add: no_columns_def)
  from empty_buffer_not_rejected [OF h, of 0 two_table plain]
  have "\<forall>frames. convertToPattern (Suc frames) two_table no_columns 0 plain =
     Some (\<lparr>stitches = [], width = 0, height = NaN, colorCounts = []\<rparr>, [NaN])"
    by (simp add: no_columns_def)
  then have "convertToPattern (Suc 6) two_table no_columns 0 plain =
     Some (\<lparr>stitches = [], width = 0, height = NaN, colorCounts = []\<rparr>, [NaN])" by (rule spec)
  then have 2: "convertToPattern 7 two_table no_columns 0 plain =
     Some (\<lparr>stitches = [], width = 0, height = NaN, colorCounts = []\<rparr>, [NaN])"
    by (simp add: eval_nat_numeral)
  from h 1 2 show ?thesis by (intro conjI)
qed

text \<open>
  A buffer of width 1 and height 0: the run resolves with an empty pattern instead of
  failing.
\<close>

theorem empty_buffer_counterexample:
  "convertToPattern 1 two_table no_rows 1 plain =
     Some (\<lparr>stitches = [], width = 1, height = Fin 0, colorCounts = []\<rparr>, [NaN])"
  by code_simp

section \<open>convertToPattern: the progress callback\<close>














section \<open>convertToPattern: background removal never adds stitches\<close>

lemma same_alpha_refl: "same_alpha d d"
  by (simp add: same_alpha_def)

lemma same_alpha_trans: "same_alpha d d' \<Longrightarrow> same_alpha d' d'' \<Longrightarrow> same_alpha d d''"
  by (simp add: same_alpha_def)

lemma same_alpha_sym: "same_alpha d d' \<Longrightarrow> same_alpha d' d"
  by (simp add: same_alpha_def)

lemma diffuse_alpha: "i mod 4 \<noteq> 3 \<Longrightarrow> same_alpha d (diffuse i e d)"
  by (auto simp: same_alpha_def diffuse_def nth_list_update)

lemma distributeError_alpha: "same_alpha d (distributeError d w h x y eR eG eB f)"
proof (cases "x < 0 \<or> int w \<le> x \<or> y < 0 \<or> int h \<le> y")
  case True
  then show ?thesis by (simp add: distributeError_def same_alpha_refl)
next
  case False
  define idx where "idx = nat ((y * int w + x) * 4)"
  from False have "0 \<le> y * int w + x" by simp
  then have "idx = nat (y * int w + x) * 4" by (simp add: idx_def nat_mult_distrib)
  then obtain k where "idx = k * 4" ..
  then have m: "idx mod 4 \<noteq> 3" "(idx + 1) mod 4 \<noteq> 3" "(idx + 2) mod 4 \<noteq> 3"
    by (simp_all add: mod_Suc)
  let ?d1 = "diffuse idx (of_int eR * f) d"
  let ?d2 = "diffuse (idx + 1) (of_int eG * f) ?d1"
  have 1: "same_alpha d ?d1" by (rule diffuse_alpha [OF m(1)])
  have 2: "same_alpha ?d1 ?d2" by (rule diffuse_alpha [OF m(2)])
  have 3: "same_alpha ?d2 (diffuse (idx + 2) (of_int eB * f) ?d2)" by (rule diffuse_alpha [OF m(3)])
  from same_alpha_trans [OF same_alpha_trans [OF 1 2] 3]
  have "same_alpha d (diffuse (idx + 2) (of_int eB * f) (diffuse (idx + 1) (of_int eG * f) (diffuse idx (of_int eR * f) d)))" .
  with False show ?thesis by (simp add: distributeError_def Let_def idx_def)
qed

lemma distributeError_alpha_after:
  "same_alpha d d' \<Longrightarrow> same_alpha d (distributeError d' w h x y eR eG eB f)"
  by (rule same_alpha_trans [OF _ distributeError_alpha])

lemma same_alpha_if:
  "same_alpha d u \<Longrightarrow> same_alpha d v \<Longrightarrow> same_alpha d (if b then u else v)"
  by simp

lemma dither_alpha: "same_alpha d (dither c sx sy eR eG eB d)"
  unfolding dither_def Let_def
  apply (rule same_alpha_if)
   apply (rule distributeError_alpha_after)+
   apply (rule same_alpha_refl)
  apply (rule same_alpha_if)
   apply (rule distributeError_alpha_after)+
   apply (rule same_alpha_refl)
  apply (rule same_alpha_refl)
  done


lemma opaque_same_alpha:
  "same_alpha d d' \<Longrightarrow> opaque (c\<lparr>opts := o2\<rparr>) d' y x = opaque c d y x"
proof -
  assume a: "same_alpha d d'"
  let ?idx = "(sampleY_of c y * image_width c + sampleX_of c x) * 4"
  have "(?idx + 3) mod 4 = 3" by presburger
  with a have "d' ! (?idx + 3) = d ! (?idx + 3)" "length d' = length d"
    by (simp_all add: same_alpha_def)
  then show ?thesis
    by (simp add: opaque_def sampleX_of_def sampleY_of_def)
qed

lemma stitch_cell_effect:
  "same_alpha (st_workingData st) (st_workingData (stitch_cell c y x sx sy r g b st))"
  "length (st_stitches (stitch_cell c y x sx sy r g b st)) = length (st_stitches st) + 1"
  by (simp_all add: stitch_cell_def Let_def same_alpha_refl dither_alpha split: prod.split)

lemma sample_cell_effect:
  "same_alpha (st_workingData st) (st_workingData (sample_cell c y x st))"
  "length (st_stitches (sample_cell c y x st)) \<le> length (st_stitches st) + (if opaque c (st_workingData st) y x then 1 else 0)"
  "\<not> removeBackground (opts c) \<Longrightarrow>
     length (st_stitches (sample_cell c y x st)) = length (st_stitches st) + (if opaque c (st_workingData st) y x then 1 else 0)"
  by (simp_all add: sample_cell_def opaque_def Let_def same_alpha_refl stitch_cell_effect is_background_def)

lemma sample_cell_behind:
  assumes "\<not> removeBackground o2" and "behind st1 st2"
  shows "behind (sample_cell c y x st1) (sample_cell (c\<lparr>opts := o2\<rparr>) y x st2)"
proof -
  let ?c2 = "c\<lparr>opts := o2\<rparr>"
  from assms(2) have a: "same_alpha (st_workingData st1) (st_workingData st2)"
    and l: "length (st_stitches st1) \<le> length (st_stitches st2)"
    by (simp_all add: behind_def)
  have o: "opaque ?c2 (st_workingData st2) y x = opaque c (st_workingData st1) y x"
    using a by (rule opaque_same_alpha)
  have "same_alpha (st_workingData (sample_cell c y x st1)) (st_workingData st1)"
    by (rule same_alpha_sym [OF sample_cell_effect(1)])
  from same_alpha_trans [OF same_alpha_trans [OF this a] sample_cell_effect(1) [of st2 ?c2 y x]]
  have 1: "same_alpha (st_workingData (sample_cell c y x st1)) (st_workingData (sample_cell ?c2 y x st2))" .
  have "\<not> removeBackground (opts ?c2)" using assms(1) by simp
  from sample_cell_effect(3) [OF this, of y x st2] o
  have "length (st_stitches (sample_cell ?c2 y x st2)) =
        length (st_stitches st2) + (if opaque c (st_workingData st1) y x then 1 else 0)"
    by simp
  with sample_cell_effect(2) [of c y x st1] l
  have "length (st_stitches (sample_cell c y x st1)) \<le> length (st_stitches (sample_cell ?c2 y x st2))"
    by simp
  with 1 show ?thesis by (simp add: behind_def)
qed

lemma fold_related:
  "(\<And>x a b. R a b \<Longrightarrow> R (f x a) (g x b)) \<Longrightarrow> R a b \<Longrightarrow> R (fold f xs a) (fold g xs b)"
  by (induction xs arbitrary: a b) auto

lemma sample_row_behind:
  assumes "\<not> removeBackground o2" and "behind st1 st2"
  shows "behind (sample_row c y st1) (sample_row (c\<lparr>opts := o2\<rparr>) y st2)"
  unfolding sample_row_def using assms
  by (simp add: fold_related [where R = behind] sample_cell_behind)

lemma processChunk_behind:
  assumes "\<not> removeBackground o2"
  shows "behind st1 st2 \<Longrightarrow> processChunk f1 c startY st1 = Some (p1, r1) \<Longrightarrow>
     processChunk f2 (c\<lparr>opts := o2\<rparr>) startY st2 = Some (p2, r2) \<Longrightarrow>
     length (stitches p1) \<le> length (stitches p2)"
proof (induction f1 arbitrary: f2 startY st1 st2)
  case 0
  then show ?case by simp
next
  case (Suc f1)
  let ?c2 = "c\<lparr>opts := o2\<rparr>"
  from Suc.prems(3) obtain f2' where f2: "f2 = Suc f2'" by (cases f2) auto
  have report: "behind (a\<lparr>st_progress := u\<rparr>) (b\<lparr>st_progress := v\<rparr>)" if "behind a b" for a b u v
    using that by (simp add: behind_def)
  show ?case
  proof (cases "endY_of startY (gridHeight c)")
    case None
    with Suc.prems f2 show ?thesis by (auto simp: resolved_def behind_def)
  next
    case (Some endY)
    let ?a1 = "fold (sample_row c) [startY..<endY] st1"
    let ?b1 = "fold (sample_row ?c2) [startY..<endY] st2"
    let ?a2 = "?a1\<lparr>st_progress := st_progress ?a1 @ [percent (st_processed ?a1) (cells c)]\<rparr>"
    let ?b2 = "?b1\<lparr>st_progress := st_progress ?b1 @ [percent (st_processed ?b1) (cells ?c2)]\<rparr>"
    have "behind ?a1 ?b1"
      using Suc.prems(1) by (intro fold_related [where R = behind] sample_row_behind assms)
    then have b2: "behind ?a2 ?b2" by (rule report)
    show ?thesis
    proof (cases "before_end endY (gridHeight c)")
      case True
      with Suc.prems(2,3) Some f2 have "processChunk f1 c endY ?a2 = Some (p1, r1)"
        "processChunk f2' ?c2 endY ?b2 = Some (p2, r2)"
        by (simp_all add: Let_def)
      from Suc.IH [OF b2 this] show ?thesis .
    next
      case False
      with Suc.prems(2,3) Some f2 have "(p1, r1) = resolved c ?a2" "(p2, r2) = resolved ?c2 ?b2"
        by (simp_all add: Let_def)
      with b2 show ?thesis by (simp add: resolved_def behind_def)
    qed
  qed
qed

lemma column_runs:
  "map_option (\<lambda>(p, r). length (stitches p)) (convertToPattern 2 two_table column 1 removing_red) = Some 2"
  "map_option (\<lambda>(p, r). length (stitches p))
     (convertToPattern 2 two_table column 1 (removing_red\<lparr>removeBackground := False\<rparr>)) = Some 5"
  by code_simp+

text \<open>
  C7: of two runs of \<^verbatim>\<open>convertToPattern\<close> on the same pixel buffer, grid width and options
  that differ in \<^verbatim>\<open>removeBackground\<close> only, the run with whatever setting of
  \<^verbatim>\<open>removeBackground\<close> (in particular enabled, with a background colour) produces at most as
  many stitches as the run with \<^verbatim>\<open>removeBackground\<close> disabled, with dithering or without:
  dithering writes the red, green and blue bytes only, and the alpha byte alone decides
  whether a cell that is not skipped as background gets a stitch.
\<close>

theorem background_removal_monotone:
  assumes "convertToPattern f1 T img gridSize opt = Some (p1, r1)"
    and "convertToPattern f2 T img gridSize (opt\<lparr>removeBackground := False\<rparr>) = Some (p2, r2)"
  shows "length (stitches p1) \<le> length (stitches p2)"
proof -
  let ?c = "run_grid T img gridSize opt"
  let ?o2 = "opt\<lparr>removeBackground := False\<rparr>"
  have grid2: "run_grid T img gridSize ?o2 = ?c\<lparr>opts := ?o2\<rparr>"
    by (simp add: run_grid_def)
  have start: "behind (run_start img) (run_start img)"
    by (simp add: behind_def same_alpha_refl)
  from assms(1) have 1: "processChunk f1 ?c 0 (run_start img) = Some (p1, r1)"
    by (simp add: convertToPattern_def)
  from assms(2) have 2: "processChunk f2 (?c\<lparr>opts := ?o2\<rparr>) 0 (run_start img) = Some (p2, r2)"
    by (simp add: convertToPattern_def grid2)
  have "\<not> removeBackground ?o2" by simp
  from processChunk_behind [OF this start 1 2] show ?thesis .
qed

theorem background_removal_monotone_witness:
  "map_option (\<lambda>(p, r). length (stitches p)) (convertToPattern 2 two_table column 1 removing_red) = Some 2 \<and>
   map_option (\<lambda>(p, r). length (stitches p))
     (convertToPattern 2 two_table column 1 (removing_red\<lparr>removeBackground := False\<rparr>)) = Some 5 \<and>
   (2::nat) \<le> 5"
proof -
  from column_runs(1) obtain p1 r1 where
    1: "convertToPattern 2 two_table column 1 removing_red = Some (p1, r1)" "length (stitches p1) = 2"
    by (cases "convertToPattern 2 two_table column 1 removing_red") auto
  from column_runs(2) obtain p2 r2 where
    2: "convertToPattern 2 two_table column 1 (removing_red\<lparr>removeBackground := False\<rparr>) = Some (p2, r2)"
      "length (stitches p2) = 5"
    by (cases "convertToPattern 2 two_table column 1 (removing_red\<lparr>removeBackground := False\<rparr>)") auto
  from background_removal_monotone [OF 1(1) 2(1)] have "(2::nat) \<le> 5"
    by (simp only: 1(2) 2(2))
  with column_runs show ?thesis by (intro conjI)
qed

section \<open>applyShapeMask: the heart\<close>






end
